theory Spec2Isabelle
  imports Complex_Main
begin

section \<open>Text primitives of the Python source\<close>

text \<open>
  Python strings are modelled as \<^typ>\<open>string\<close>, restricted to ASCII text: \<open>lower\<close>
  maps \<open>A\<close>..\<open>Z\<close> to \<open>a\<close>..\<open>z\<close> and leaves every other character alone, and the
  whitespace that \<open>strip()\<close> and the pattern \<open>\s\<close> recognise is the ASCII whitespace of
  Python's \<open>str.isspace\<close> (codes 9 to 13, 28 to 32).
\<close>

definition ascii_uppercase :: string where
  "ascii_uppercase = ''ABCDEFGHIJKLMNOPQRSTUVWXYZ''"

definition ascii_lowercase :: string where
  "ascii_lowercase = ''abcdefghijklmnopqrstuvwxyz''"

definition ascii_digits :: string where
  "ascii_digits = ''0123456789''"

definition lower_char :: "char \<Rightarrow> char" where
  "lower_char c =
     (case map_of (zip ascii_uppercase ascii_lowercase) c of Some l \<Rightarrow> l | None \<Rightarrow> c)"

definition upper_char :: "char \<Rightarrow> char" where
  "upper_char c =
     (case map_of (zip ascii_lowercase ascii_uppercase) c of Some u \<Rightarrow> u | None \<Rightarrow> c)"

definition py_lower :: "string \<Rightarrow> string" where
  "py_lower s = map lower_char s"

definition py_upper :: "string \<Rightarrow> string" where
  "py_upper s = map upper_char s"

definition is_alnum :: "char \<Rightarrow> bool" where
  "is_alnum c \<longleftrightarrow> c \<in> set (ascii_lowercase @ ascii_uppercase @ ascii_digits)"

definition is_space :: "char \<Rightarrow> bool" where
  "is_space c \<longleftrightarrow>
     c \<in> set [CHR 0x09, CHR 0x0A, CHR 0x0B, CHR 0x0C, CHR 0x0D,
               CHR 0x1C, CHR 0x1D, CHR 0x1E, CHR 0x1F, CHR '' '']"

text \<open>\<open>s.strip()\<close> and \<open>s.strip(chars)\<close>.\<close>

definition strip_chars :: "(char \<Rightarrow> bool) \<Rightarrow> string \<Rightarrow> string" where
  "strip_chars p s = rev (dropWhile p (rev (dropWhile p s)))"

definition py_strip :: "string \<Rightarrow> string" where
  "py_strip s = strip_chars is_space s"

text \<open>\<open>s.split(d)\<close> for a one-character separator: never an empty list.\<close>

fun py_split :: "char \<Rightarrow> string \<Rightarrow> string list" where
  "py_split d [] = [[]]"
| "py_split d (c # cs) =
     (if c = d then [] # py_split d cs
      else (case py_split d cs of [] \<Rightarrow> [[c]] | p # ps \<Rightarrow> (c # p) # ps))"

text \<open>\<open>sub in s\<close> on strings: \<open>sub\<close> occurs in \<open>s\<close> as a contiguous run.\<close>

fun starts_with :: "string \<Rightarrow> string \<Rightarrow> bool" where
  "starts_with [] s = True"
| "starts_with (a # as) [] = False"
| "starts_with (a # as) (c # cs) = (a = c \<and> starts_with as cs)"

fun py_in :: "string \<Rightarrow> string \<Rightarrow> bool" where
  "py_in sub [] = starts_with sub []"
| "py_in sub (c # cs) = (starts_with sub (c # cs) \<or> py_in sub cs)"

text \<open>\<open>re.sub(r'\s+', ' ', s)\<close>: every maximal run of whitespace becomes one space.\<close>

function collapse_spaces :: "string \<Rightarrow> string" where
  "collapse_spaces [] = []"
| "collapse_spaces (c # cs) =
     (if is_space c then CHR '' '' # collapse_spaces (dropWhile is_space cs)
      else c # collapse_spaces cs)"
  by pat_completeness auto
termination
  by (relation "measure length") (auto simp: length_dropWhile_le less_Suc_eq_le)

text \<open>\<open>re.sub(r'[^a-zA-Z0-9]', '', s)\<close>.\<close>

definition strip_non_alnum :: "string \<Rightarrow> string" where
  "strip_non_alnum s = filter is_alnum s"


section \<open>Code-only campaign filter\<close>

text \<open>
  \<open>workers/update_status.py\<close>, \<open>normalize_campaign_code\<close> and
  \<open>is_campaign_code_match\<close> (prefix \<open>us_\<close>: the module has its own copy).
\<close>

definition us_normalize_campaign_code :: "string \<Rightarrow> string" where
  "us_normalize_campaign_code code = strip_non_alnum (py_lower code)"

definition us_is_campaign_code_match :: "string \<Rightarrow> string \<Rightarrow> bool" where
  "us_is_campaign_code_match campaign_name campaign_code =
     (let normalized_name = us_normalize_campaign_code campaign_name;
          normalized_code = us_normalize_campaign_code campaign_code
      in py_in normalized_code normalized_name)"

text \<open>
  \<open>workers/on_off_adsets_worker.py\<close>: the same, after \<open>code.strip(' -')\<close>.
\<close>

definition normalize_campaign_code :: "string \<Rightarrow> string" where
  "normalize_campaign_code code =
     (let code1 = strip_chars (\<lambda>c. c = CHR '' '' \<or> c = CHR ''-'') code
      in strip_non_alnum (py_lower code1))"

definition is_campaign_code_match :: "string \<Rightarrow> string \<Rightarrow> bool" where
  "is_campaign_code_match campaign_name campaign_code =
     (let normalized_name = normalize_campaign_code campaign_name;
          normalized_code = normalize_campaign_code campaign_code
      in py_in normalized_code normalized_name)"


section \<open>Name resolver\<close>

text \<open>\<open>workers/edit_budget_worker.py\<close>, \<open>normalize_name\<close>.\<close>

definition normalize_name :: "string \<Rightarrow> string" where
  "normalize_name name = collapse_spaces (py_strip (py_lower name))"

record match_details =
  page_name_found :: bool
  item_name_found :: bool
  campaign_code_found :: bool

text \<open>
  \<open>parse_campaign_name_flexible\<close>: the segments of the name between dashes, each
  trimmed and lowercased; an expected component is found when it is not empty and its
  lowercase form is one of the segments.
\<close>

definition name_parts :: "string \<Rightarrow> string list" where
  "name_parts campaign_name = map (\<lambda>p. py_lower (py_strip p)) (py_split CHR ''-'' campaign_name)"

definition parse_campaign_name_flexible ::
  "string \<Rightarrow> string \<Rightarrow> string \<Rightarrow> string \<Rightarrow> match_details" where
  "parse_campaign_name_flexible campaign_name expected_page_name expected_item_name
       expected_campaign_code =
     (if campaign_name = [] then
        \<lparr>page_name_found = False, item_name_found = False, campaign_code_found = False\<rparr>
      else
        (let parts = name_parts campaign_name in
         \<lparr>page_name_found =
            (if expected_page_name \<noteq> [] then py_lower expected_page_name \<in> set parts
             else False),
          item_name_found =
            (if expected_item_name \<noteq> [] then py_lower expected_item_name \<in> set parts
             else False),
          campaign_code_found =
            (if expected_campaign_code \<noteq> [] then py_lower expected_campaign_code \<in> set parts
             else False)\<rparr>))"

text \<open>
  The resolver as the specification words it: both sides normalised (lowercase, trim,
  internal whitespace collapsed), then membership among the dash-delimited segments of
  the normalised name. Used only to compare with the source's resolver.
\<close>

definition match_components_spec ::
  "string \<Rightarrow> string \<Rightarrow> string \<Rightarrow> string \<Rightarrow> match_details" where
  "match_components_spec raw_name page item code =
     (let segments = py_split CHR ''-'' (normalize_name raw_name) in
      \<lparr>page_name_found = normalize_name page \<in> set segments,
       item_name_found = normalize_name item \<in> set segments,
       campaign_code_found = normalize_name code \<in> set segments\<rparr>)"


text \<open>
  \<open>find_campaign_id_by_components\<close>, lines 87 to 104: the caller's treatment of its three
  inputs (a missing or empty input counts as empty; page and item are lowercased and
  trimmed, the code only trimmed), its refusal when one of them is empty, and the call of
  the parser on one campaign name.
\<close>

definition normalize_component_inputs ::
  "string option \<Rightarrow> string option \<Rightarrow> string option \<Rightarrow> string \<times> string \<times> string" where
  "normalize_component_inputs input_page_name input_item_name input_campaign_code =
     ((case input_page_name of None \<Rightarrow> []
       | Some p \<Rightarrow> if p = [] then [] else py_strip (py_lower p)),
      (case input_item_name of None \<Rightarrow> []
       | Some i \<Rightarrow> if i = [] then [] else py_strip (py_lower i)),
      (case input_campaign_code of None \<Rightarrow> []
       | Some c \<Rightarrow> if c = [] then [] else py_strip c))"

definition match_campaign_name ::
  "string \<Rightarrow> string option \<Rightarrow> string option \<Rightarrow> string option \<Rightarrow> match_details option" where
  "match_campaign_name campaign_name input_page_name input_item_name input_campaign_code =
     (case normalize_component_inputs input_page_name input_item_name input_campaign_code of
        (page, item, code) \<Rightarrow>
          if page = [] \<or> item = [] \<or> code = [] then None
          else Some (parse_campaign_name_flexible campaign_name page item code))"


section \<open>Data model\<close>

text \<open>
  Python floats are modelled as exact rationals, together with the two other values the
  code tests a cost metric for: \<open>float('inf')\<close>, the sentinel of an undefined metric, and
  \<open>None\<close>. Rounding, \<open>nan\<close> and \<open>-inf\<close> are outside the model.
\<close>

datatype cpp = Num rat | Inf | PyNone

datatype py_error =
  KeyError | ValueError | TypeError | AttributeError | UnboundLocalError | ZeroDivisionError

text \<open>
  A numeric field of a JSON object that the code converts with \<open>float(d.get(k, 0))\<close>:
  the key is absent, or holds a value that denotes a number, or holds a value the
  conversion rejects.
\<close>

datatype num_field = Absent | Number rat | Malformed

definition py_float :: "num_field \<Rightarrow> py_error + rat" where
  "py_float v = (case v of Absent \<Rightarrow> Inr 0 | Number r \<Rightarrow> Inr r | Malformed \<Rightarrow> Inl ValueError)"

text \<open>
  Entity snapshots: the dictionaries \<open>campaign_data[campaign_id]\<close> and
  \<open>campaign_data[campaign_id]["ADSETS"][adset_id]\<close>. A field read with \<open>.get(key, default)\<close>
  is an option, \<open>None\<close> for an absent key. Dictionaries are association lists in
  insertion order.
\<close>

record adset_info =
  NAME :: "string option"
  STATUS :: "string option"
  CPP :: "cpp option"

record campaign_info =
  CAMPAIGN_NAME :: "string option"
  CAMPAIGN_STATUS :: "string option"
  CAMPAIGN_CPP :: "cpp option"
  ADSETS :: "(string \<times> adset_info) list"

type_synonym campaigns_data = "(string \<times> campaign_info) list"

text \<open>
  The schedule definition, a dictionary read with \<open>[key]\<close> and \<open>.get(key)\<close>; the field
  \<open>key_k\<close> is the entry under the key \<open>k\<close>, \<open>None\<close> when the key is absent.
\<close>

record schedule_data =
  key_campaign_code :: "string option"
  key_watch :: "string option"
  key_cpp_metric :: num_field
  key_on_off :: "string option"
  key_date_start :: "string option"
  key_date_end :: "string option"


section \<open>Platform, trace and run state\<close>

text \<open>
  Every request to the platform and every \<open>time.sleep\<close> is recorded, in order, with
  what the platform answered. The platform itself is an arbitrary state machine over a
  hidden state \<open>'w\<close>.
\<close>

datatype call =
    Post string string bool
  | GetStatus string "string option"
  | Get string
  | Sleep rat

text \<open>
  Progress messages (\<open>append_redis_message\<close>, \<open>append_redis_message_adsets\<close>), one
  constructor for each message text of the functions modelled; timestamps are left out.
\<close>

datatype message =
    Successfully_updated string string
  | Error_updating string string
  | Retry nat string string string
  | Verified string string
  | Warning_status_mismatch string string "string option"
  | Failed_to_update_after string string nat
  | Processing_adsets rat string
  | Processing_campaign string
  | No_sales_will_turn_off string
  | Already_off_no_sales string
  | Skipping_no_spend string
  | Will_remain string "string"
  | Decision string string string
  | Updating string string string
  | Updated_ok string string
  | Update_failed string string
  | Already_in_correct_state string string
  | Processing_complete nat nat
  | Error_in_process_adsets py_error
  | Campaign_remains string string string
  | Updated_campaign string string string
  | No_matched_campaign_data
  | Successfully_updated_statuses string
  | Error_processing_scheduled py_error

record 'w status_api =
  post_status :: "string \<Rightarrow> string \<Rightarrow> 'w \<Rightarrow> bool \<times> 'w"
  read_status :: "string \<Rightarrow> 'w \<Rightarrow> string option \<times> 'w"

record 'w run_state =
  world :: 'w
  calls :: "call list"
  messages :: "message list"

definition say :: "message \<Rightarrow> 'w run_state \<Rightarrow> 'w run_state" where
  "say m s = s\<lparr>messages := messages s @ [m]\<rparr>"

definition sleep :: "rat \<Rightarrow> 'w run_state \<Rightarrow> 'w run_state" where
  "sleep d s = s\<lparr>calls := calls s @ [Sleep d]\<rparr>"


section \<open>Apply and verify\<close>

text \<open>
  \<open>workers/update_status.py\<close>. \<open>fetch_entity_status\<close> answers \<open>None\<close> on every failure;
  \<open>update_facebook_status\<close> answers whether the request went through.
\<close>

definition fetch_entity_status ::
  "'w status_api \<Rightarrow> string \<Rightarrow> 'w run_state \<Rightarrow> string option \<times> 'w run_state" where
  "fetch_entity_status P entity_id s =
     (case read_status P entity_id (world s) of
        (status, w') \<Rightarrow> (status, s\<lparr>world := w', calls := calls s @ [GetStatus entity_id status]\<rparr>))"

definition update_facebook_status ::
  "'w status_api \<Rightarrow> string \<Rightarrow> string \<Rightarrow> 'w run_state \<Rightarrow> bool \<times> 'w run_state" where
  "update_facebook_status P entity_id new_status s =
     (case post_status P entity_id new_status (world s) of
        (ok, w') \<Rightarrow>
          (ok, say (if ok then Successfully_updated entity_id new_status
                    else Error_updating entity_id new_status)
                 (s\<lparr>world := w', calls := calls s @ [Post entity_id new_status ok]\<rparr>)))"

text \<open>
  \<open>update_facebook_status_with_retry\<close>: the body of \<open>for attempt in range(max_retries + 1)\<close>
  run over the attempts that remain; the first component tells whether the function has
  returned True.
\<close>

fun retry_attempts ::
  "'w status_api \<Rightarrow> string \<Rightarrow> string \<Rightarrow> string \<Rightarrow> nat \<Rightarrow> nat list \<Rightarrow> 'w run_state
     \<Rightarrow> bool \<times> 'w run_state" where
  "retry_attempts P entity_id entity_name new_status max_retries [] s = (False, s)"
| "retry_attempts P entity_id entity_name new_status max_retries (attempt # rest) s =
     (let s1 = (if attempt > 0 then say (Retry attempt entity_name entity_id new_status) s else s)
      in case update_facebook_status P entity_id new_status s1 of
        (success, s2) \<Rightarrow>
          (case (if success then
                   (case fetch_entity_status P entity_id (sleep 1 s2) of
                      (current_status, s3) \<Rightarrow>
                        if current_status = Some new_status
                        then (True, say (Verified entity_name new_status) s3)
                        else (False, say (Warning_status_mismatch entity_name new_status
                                            current_status) s3))
                 else (False, s2)) of
             (True, s4) \<Rightarrow> (True, s4)
           | (False, s4) \<Rightarrow>
               retry_attempts P entity_id entity_name new_status max_retries rest
                 (if attempt < max_retries then sleep (2 ^ attempt) s4 else s4)))"

definition update_facebook_status_with_retry ::
  "'w status_api \<Rightarrow> string \<Rightarrow> string \<Rightarrow> string \<Rightarrow> nat \<Rightarrow> 'w run_state
     \<Rightarrow> bool \<times> 'w run_state" where
  "update_facebook_status_with_retry P entity_id entity_name new_status max_retries s =
     (case retry_attempts P entity_id entity_name new_status max_retries [0..<max_retries + 1] s of
        (True, s') \<Rightarrow> (True, s')
      | (False, s') \<Rightarrow>
          (False, say (Failed_to_update_after entity_name new_status (max_retries + 1)) s'))"

text \<open>The default of the parameter \<open>max_retries\<close>.\<close>

definition default_max_retries :: nat where
  "default_max_retries = 2"


text \<open>
  What one attempt of \<open>update_facebook_status_with_retry\<close> leaves in the trace and in the
  progress channel, by its outcome: the write failed, or it went through and the status
  read back is the one given (\<open>None\<close> for a failed read). Used to state the retry
  contract; attempts count from 0.
\<close>

datatype outcome = Write_failed | Read_back "string option"

definition attempt_calls :: "string \<Rightarrow> string \<Rightarrow> nat \<Rightarrow> nat \<Rightarrow> outcome \<Rightarrow> call list" where
  "attempt_calls entity_id new_status max_retries attempt oc =
     (case oc of
        Write_failed \<Rightarrow> [Post entity_id new_status False]
      | Read_back r \<Rightarrow> [Post entity_id new_status True, Sleep 1, GetStatus entity_id r])
     @ (if oc \<noteq> Read_back (Some new_status) \<and> attempt < max_retries
        then [Sleep (2 ^ attempt)] else [])"

definition attempt_messages :: "string \<Rightarrow> string \<Rightarrow> string \<Rightarrow> nat \<Rightarrow> outcome \<Rightarrow> message list" where
  "attempt_messages entity_id entity_name new_status attempt oc =
     (if attempt > 0 then [Retry attempt entity_name entity_id new_status] else [])
     @ (case oc of
          Write_failed \<Rightarrow> [Error_updating entity_id new_status]
        | Read_back r \<Rightarrow>
            [Successfully_updated entity_id new_status,
             if r = Some new_status then Verified entity_name new_status
             else Warning_status_mismatch entity_name new_status r])"


section \<open>Ad-set decision pass\<close>

text \<open>
  \<open>process_adsets\<close>. The locals that outlive one iteration of the loops are kept in a
  record: \<open>target_status\<close> is \<open>None\<close> while the variable is unbound (\<open>reason\<close> is always
  assigned together with it and is not modelled), and the two counters.
\<close>

record 'w loop_state =
  run :: "'w run_state"
  target_status :: "string option"
  total_processed :: nat
  total_updated :: nat

definition tell :: "message \<Rightarrow> 'w loop_state \<Rightarrow> 'w loop_state" where
  "tell m ls = ls\<lparr>run := say m (run ls)\<rparr>"

text \<open>
  The end of the loop body, from \<open># Log the decision\<close> on: reading \<open>target_status\<close>
  while it is unbound raises; otherwise the update is issued when the status differs,
  and the snapshot's \<open>STATUS\<close> is written only after a verified update.
\<close>

definition apply_decision ::
  "'w status_api \<Rightarrow> string \<Rightarrow> string \<Rightarrow> string \<Rightarrow> adset_info \<Rightarrow> 'w loop_state
     \<Rightarrow> py_error option \<times> adset_info \<times> 'w loop_state" where
  "apply_decision P adset_id adset_name current_status adset_info ls =
     (case target_status ls of
        None \<Rightarrow> (Some UnboundLocalError, adset_info, ls)
      | Some target \<Rightarrow>
          (let ls1 = tell (Decision adset_name current_status target) ls in
           if current_status \<noteq> target then
             (case update_facebook_status_with_retry P adset_id adset_name target
                     default_max_retries
                     (run (tell (Updating adset_name current_status target) ls1)) of
                (success, s') \<Rightarrow>
                  if success then
                    (None, adset_info\<lparr>STATUS := Some target\<rparr>,
                     tell (Updated_ok adset_name target)
                       (ls1\<lparr>run := s', total_updated := total_updated ls1 + 1\<rparr>))
                  else
                    (None, adset_info,
                     tell (Update_failed adset_name target) (ls1\<lparr>run := s'\<rparr>)))
           else
             (None, adset_info, tell (Already_in_correct_state adset_name current_status) ls1)))"

text \<open>The body of \<open>for adset_id, adset_info in adsets.items()\<close>.\<close>

definition adset_body ::
  "'w status_api \<Rightarrow> string \<Rightarrow> rat \<Rightarrow> string \<Rightarrow> adset_info \<Rightarrow> 'w loop_state
     \<Rightarrow> py_error option \<times> adset_info \<times> 'w loop_state" where
  "adset_body P on_off cpp_metric adset_id adset_info ls =
     (let adset_cpp = (case CPP adset_info of None \<Rightarrow> Num 0 | Some v \<Rightarrow> v);
          current_status = (case STATUS adset_info of None \<Rightarrow> [] | Some v \<Rightarrow> v);
          adset_name = (case NAME adset_info of None \<Rightarrow> ''Unknown'' | Some v \<Rightarrow> v);
          ls1 = ls\<lparr>total_processed := total_processed ls + 1\<rparr>;
          no_sales =
            (if current_status \<noteq> ''PAUSED'' then
               apply_decision P adset_id adset_name current_status adset_info
                 (tell (No_sales_will_turn_off adset_name)
                    (ls1\<lparr>target_status := Some ''PAUSED''\<rparr>))
             else (None, adset_info, tell (Already_off_no_sales adset_name) ls1))
      in case adset_cpp of
           Inf \<Rightarrow> no_sales
         | PyNone \<Rightarrow> no_sales
         | Num c \<Rightarrow>
             if c = 0 then (None, adset_info, tell (Skipping_no_spend adset_name) ls1)
             else if on_off = ''OFF'' then
               (if c \<ge> cpp_metric then
                  apply_decision P adset_id adset_name current_status adset_info
                    (ls1\<lparr>target_status := Some ''PAUSED''\<rparr>)
                else (None, adset_info, tell (Will_remain adset_name current_status) ls1))
             else if on_off = ''ON'' then
               (if c < cpp_metric then
                  apply_decision P adset_id adset_name current_status adset_info
                    (ls1\<lparr>target_status := Some ''ACTIVE''\<rparr>)
                else
                  apply_decision P adset_id adset_name current_status adset_info
                    (ls1\<lparr>target_status := Some ''PAUSED''\<rparr>))
             else apply_decision P adset_id adset_name current_status adset_info ls1)"

text \<open>
  The two loops. An exception leaves the loop at once; what has been written into the
  snapshots so far stays written.
\<close>

fun adsets_loop ::
  "'w status_api \<Rightarrow> string \<Rightarrow> rat \<Rightarrow> (string \<times> adset_info) list \<Rightarrow> 'w loop_state
     \<Rightarrow> py_error option \<times> (string \<times> adset_info) list \<times> 'w loop_state" where
  "adsets_loop P on_off cpp_metric [] ls = (None, [], ls)"
| "adsets_loop P on_off cpp_metric ((adset_id, adset_info) # rest) ls =
     (case adset_body P on_off cpp_metric adset_id adset_info ls of
        (Some e, adset_info', ls') \<Rightarrow> (Some e, (adset_id, adset_info') # rest, ls')
      | (None, adset_info', ls') \<Rightarrow>
          (case adsets_loop P on_off cpp_metric rest ls' of
             (r, rest', ls'') \<Rightarrow> (r, (adset_id, adset_info') # rest', ls'')))"

fun campaigns_loop ::
  "'w status_api \<Rightarrow> string \<Rightarrow> string \<Rightarrow> rat \<Rightarrow> campaigns_data \<Rightarrow> 'w loop_state
     \<Rightarrow> py_error option \<times> campaigns_data \<times> 'w loop_state" where
  "campaigns_loop P campaign_code on_off cpp_metric [] ls = (None, [], ls)"
| "campaigns_loop P campaign_code on_off cpp_metric ((campaign_id, campaign_info) # rest) ls =
     (let campaign_name = (case CAMPAIGN_NAME campaign_info of None \<Rightarrow> [] | Some v \<Rightarrow> v) in
      if \<not> us_is_campaign_code_match campaign_name campaign_code then
        (case campaigns_loop P campaign_code on_off cpp_metric rest ls of
           (r, rest', ls') \<Rightarrow> (r, (campaign_id, campaign_info) # rest', ls'))
      else
        (case adsets_loop P on_off cpp_metric (ADSETS campaign_info)
                (tell (Processing_campaign campaign_name) ls) of
           (Some e, adsets', ls') \<Rightarrow>
             (Some e, (campaign_id, campaign_info\<lparr>ADSETS := adsets'\<rparr>) # rest, ls')
         | (None, adsets', ls') \<Rightarrow>
             (case campaigns_loop P campaign_code on_off cpp_metric rest ls' of
                (r, rest', ls'') \<Rightarrow>
                  (r, (campaign_id, campaign_info\<lparr>ADSETS := adsets'\<rparr>) # rest', ls''))))"

text \<open>
  \<open>process_adsets\<close>: \<open>Inr (total_processed, total_updated)\<close> for the summary it returns,
  \<open>Inl e\<close> for the error message of its \<open>except\<close> clause. The snapshots are returned as
  the run left them.
\<close>

definition process_adsets ::
  "'w status_api \<Rightarrow> schedule_data \<Rightarrow> campaigns_data \<Rightarrow> 'w run_state
     \<Rightarrow> (py_error + nat \<times> nat) \<times> campaigns_data \<times> 'w run_state" where
  "process_adsets P schedule campaigns s =
     (case key_campaign_code schedule of
        None \<Rightarrow> (Inl KeyError, campaigns, say (Error_in_process_adsets KeyError) s)
      | Some campaign_code \<Rightarrow>
     (case py_float (key_cpp_metric schedule) of
        Inl e \<Rightarrow> (Inl e, campaigns, say (Error_in_process_adsets e) s)
      | Inr cpp_metric \<Rightarrow>
     (case key_on_off schedule of
        None \<Rightarrow> (Inl KeyError, campaigns, say (Error_in_process_adsets KeyError) s)
      | Some mode \<Rightarrow>
          (let on_off = py_upper mode in
           case campaigns_loop P campaign_code on_off cpp_metric campaigns
                  \<lparr>run = say (Processing_adsets cpp_metric on_off) s, target_status = None,
                   total_processed = 0, total_updated = 0\<rparr> of
             (Some e, campaigns', ls) \<Rightarrow>
               (Inl e, campaigns', say (Error_in_process_adsets e) (run ls))
           | (None, campaigns', ls) \<Rightarrow>
               (Inr (total_processed ls, total_updated ls), campaigns',
                say (Processing_complete (total_processed ls) (total_updated ls)) (run ls))))))"

text \<open>
  Two platforms with one entity, whose status is the hidden state: one accepts every
  write and never changes anything, the other does what it is told.
\<close>

definition ignoring_platform :: "string status_api" where
  "ignoring_platform =
     \<lparr>post_status = (\<lambda>entity_id new_status w. (True, w)),
      read_status = (\<lambda>entity_id w. (Some w, w))\<rparr>"

definition obedient_platform :: "string status_api" where
  "obedient_platform =
     \<lparr>post_status = (\<lambda>entity_id new_status w. (True, new_status)),
      read_status = (\<lambda>entity_id w. (Some w, w))\<rparr>"


definition active_start :: "string run_state" where
  "active_start = \<lparr>world = ''ACTIVE'', calls = [], messages = []\<rparr>"


section \<open>Metrics engine: the cost metric of one insights item\<close>

text \<open>
  \<open>get_cpp_from_insights\<close>, the body of \<open>for item in data_items\<close>. An insights item and
  the entries of its \<open>actions\<close> list are dictionaries; the field \<open>item_k\<close> (\<open>act_k\<close>) is
  the entry under the key \<open>k\<close>, and \<open>item_id\<close> the one under \<open>{level}_id\<close>.
\<close>

record action =
  act_action_type :: "string option"
  act_value :: num_field

record insight_item =
  item_id :: "string option"
  item_spend :: num_field
  item_impressions :: num_field
  item_actions :: "action list"

definition checkout_actions :: "string list" where
  "checkout_actions =
     [''omni_initiated_checkout'',
      ''initiate_checkout'',
      ''offsite_conversion.fb_pixel_initiate_checkout'',
      ''checkout_initiated'',
      ''onsite_conversion.initiate_checkout'',
      ''onsite_web_initiate_checkout'']"

text \<open>\<open>for action in actions\<close>: the values of the recognised action types, in order.\<close>

fun collect_checkout_values :: "action list \<Rightarrow> rat list \<Rightarrow> py_error + rat list" where
  "collect_checkout_values [] checkout_values = Inr checkout_values"
| "collect_checkout_values (a # rest) checkout_values =
     (case py_float (act_value a) of
        Inl e \<Rightarrow> Inl e
      | Inr action_value \<Rightarrow>
          collect_checkout_values rest
            (if (case act_action_type a of None \<Rightarrow> False
                 | Some action_type \<Rightarrow> action_type \<in> set checkout_actions)
             then checkout_values @ [action_value] else checkout_values))"

text \<open>\<open>max(xs)\<close> of a non-empty list, and Python's division, which raises on zero.\<close>

fun py_max :: "rat list \<Rightarrow> rat" where
  "py_max [] = 0"
| "py_max (x # xs) = fold max xs x"

definition py_div :: "rat \<Rightarrow> rat \<Rightarrow> py_error + rat" where
  "py_div a b = (if b = 0 then Inl ZeroDivisionError else Inr (a / b))"

definition item_cpp :: "insight_item \<Rightarrow> py_error + cpp" where
  "item_cpp item =
     (case py_float (item_spend item) of
        Inl e \<Rightarrow> Inl e
      | Inr spend \<Rightarrow>
     (case py_float (item_impressions item) of
        Inl e \<Rightarrow> Inl e
      | Inr impressions \<Rightarrow>
     (case collect_checkout_values (item_actions item) [] of
        Inl e \<Rightarrow> Inl e
      | Inr checkout_values \<Rightarrow>
          (let initiate_checkout_value =
                 (if checkout_values \<noteq> [] then py_max checkout_values else 0)
           in if initiate_checkout_value > 0 then
                (case py_div spend initiate_checkout_value of
                   Inl e \<Rightarrow> Inl e
                 | Inr q \<Rightarrow> Inr (Num q))
              else Inr Inf))))"

text \<open>
  The outcome count as the specification words it: the largest value observed among the
  recognised action types of the item, 0 when there is none. Used only to state what
  \<open>item_cpp\<close> computes.
\<close>

definition number_of :: "num_field \<Rightarrow> rat" where
  "number_of v = (case v of Number r \<Rightarrow> r | _ \<Rightarrow> 0)"

definition recognised_values :: "insight_item \<Rightarrow> rat list" where
  "recognised_values item =
     map (\<lambda>a. number_of (act_value a))
       (filter (\<lambda>a. \<exists>t \<in> set checkout_actions. act_action_type a = Some t) (item_actions item))"

definition outcome_count :: "insight_item \<Rightarrow> rat" where
  "outcome_count item =
     (if recognised_values item = [] then 0 else Max (set (recognised_values item)))"

definition well_formed_item :: "insight_item \<Rightarrow> bool" where
  "well_formed_item item \<longleftrightarrow>
     item_spend item \<noteq> Malformed \<and> item_impressions item \<noteq> Malformed
     \<and> (\<forall>a \<in> set (item_actions item). act_value a \<noteq> Malformed)"


text \<open>An item with two recognised action types, worth 3 and 5, and a spend of 30.\<close>

definition example_item :: insight_item where
  "example_item =
     \<lparr>item_id = Some ''a1'', item_spend = Number 30, item_impressions = Absent,
      item_actions =
        [\<lparr>act_action_type = Some ''initiate_checkout'', act_value = Number 3\<rparr>,
         \<lparr>act_action_type = Some ''link_click'', act_value = Number 40\<rparr>,
         \<lparr>act_action_type = Some ''omni_initiated_checkout'', act_value = Number 5\<rparr>]\<rparr>"


text \<open>
  A call that belongs to the update of one entity to one status: a write of that status
  to that entity, a read of that entity's status, or a pause.
\<close>

definition touches_only :: "string \<Rightarrow> string \<Rightarrow> call \<Rightarrow> bool" where
  "touches_only entity_id new_status c =
     (case c of
        Post e st ok \<Rightarrow> e = entity_id \<and> st = new_status
      | GetStatus e r \<Rightarrow> e = entity_id
      | Get url \<Rightarrow> False
      | Sleep d \<Rightarrow> True)"

text \<open>The locals of \<open>adset_body\<close> that are read from the snapshot with a default.\<close>

definition current_status_of :: "adset_info \<Rightarrow> string" where
  "current_status_of adset_info = (case STATUS adset_info of None \<Rightarrow> [] | Some v \<Rightarrow> v)"

definition adset_name_of :: "adset_info \<Rightarrow> string" where
  "adset_name_of adset_info = (case NAME adset_info of None \<Rightarrow> ''Unknown'' | Some v \<Rightarrow> v)"


text \<open>
  What every run of the loop body guarantees, whatever the branch taken: the snapshot is
  either untouched or has its \<open>STATUS\<close> set to a target that the platform has just
  confirmed; an exception can only be the unbound \<open>target_status\<close> of a mode that is
  neither \<open>ON\<close> nor \<open>OFF\<close>, raised before any call; the ad set is counted.
\<close>

definition body_frame ::
  "string \<Rightarrow> string \<Rightarrow> adset_info \<Rightarrow> 'w loop_state
     \<Rightarrow> py_error option \<times> adset_info \<times> 'w loop_state \<Rightarrow> bool" where
  "body_frame on_off adset_id adset_info ls res =
     (case res of (raised, adset_info', ls') \<Rightarrow>
        (adset_info' = adset_info \<and> total_updated ls' = total_updated ls
         \<or> (\<exists>target. adset_info' = adset_info\<lparr>STATUS := Some target\<rparr>
              \<and> total_updated ls' = total_updated ls + 1
              \<and> calls (run ls') \<noteq> []
              \<and> last (calls (run ls')) = GetStatus adset_id (Some target)))
        \<and> (raised \<noteq> None \<longrightarrow> raised = Some UnboundLocalError
              \<and> on_off \<noteq> ''ON'' \<and> on_off \<noteq> ''OFF'' \<and> calls (run ls') = calls (run ls))
        \<and> total_processed ls' = total_processed ls + 1)"

text \<open>Three ad sets and the state at the start of a loop, for the examples.\<close>

definition no_sales_adset :: adset_info where
  "no_sales_adset = \<lparr>NAME = Some ''one'', STATUS = Some ''ACTIVE'', CPP = Some Inf\<rparr>"

definition no_spend_adset :: adset_info where
  "no_spend_adset = \<lparr>NAME = Some ''two'', STATUS = Some ''ACTIVE'', CPP = Some (Num 0)\<rparr>"

definition costly_adset :: adset_info where
  "costly_adset = \<lparr>NAME = Some ''three'', STATUS = Some ''ACTIVE'', CPP = Some (Num 7)\<rparr>"

definition fresh_loop :: "string loop_state" where
  "fresh_loop =
     \<lparr>run = active_start, target_status = None, total_processed = 0, total_updated = 0\<rparr>"

definition zero_spend_item :: insight_item where
  "zero_spend_item = example_item\<lparr>item_spend := Number 0\<rparr>"


section \<open>Campaign decision pass\<close>

text \<open>
  \<open>process_scheduled_campaigns\<close>. The threshold is \<open>int(schedule_data.get("cpp_metric", 0))\<close>:
  a number is truncated toward zero. Comparing \<open>None\<close> with a number raises.
\<close>

definition py_int :: "num_field \<Rightarrow> py_error + int" where
  "py_int v =
     (case v of
        Absent \<Rightarrow> Inr 0
      | Number r \<Rightarrow> Inr (if r \<ge> 0 then \<lfloor>r\<rfloor> else \<lceil>r\<rceil>)
      | Malformed \<Rightarrow> Inl ValueError)"

definition cpp_less :: "cpp \<Rightarrow> int \<Rightarrow> py_error + bool" where
  "cpp_less campaign_cpp cpp_metric =
     (case campaign_cpp of
        Num c \<Rightarrow> Inr (c < of_int cpp_metric)
      | Inf \<Rightarrow> Inr False
      | PyNone \<Rightarrow> Inl TypeError)"

definition cpp_greater_eq :: "cpp \<Rightarrow> int \<Rightarrow> py_error + bool" where
  "cpp_greater_eq campaign_cpp cpp_metric =
     (case campaign_cpp of
        Num c \<Rightarrow> Inr (c \<ge> of_int cpp_metric)
      | Inf \<Rightarrow> Inr True
      | PyNone \<Rightarrow> Inl TypeError)"

text \<open>
  The \<open>if\<close>/\<open>elif\<close>/\<open>else\<close> under \<open># Decide whether to turn ON or OFF\<close>: the value given
  to \<open>new_status\<close>, or \<open>None\<close> for the \<open>else\<close> branch, which logs that the campaign
  remains as it is and continues. \<open>and\<close> evaluates the comparison only when the mode
  matches.
\<close>

definition campaign_new_status :: "string \<Rightarrow> cpp \<Rightarrow> int \<Rightarrow> py_error + string option" where
  "campaign_new_status on_off campaign_cpp cpp_metric =
     (case (if on_off = ''ON'' then cpp_less campaign_cpp cpp_metric else Inr False) of
        Inl e \<Rightarrow> Inl e
      | Inr True \<Rightarrow> Inr (Some ''ACTIVE'')
      | Inr False \<Rightarrow>
          (case (if on_off = ''OFF'' then cpp_greater_eq campaign_cpp cpp_metric else Inr False) of
             Inl e \<Rightarrow> Inl e
           | Inr True \<Rightarrow> Inr (Some ''PAUSED'')
           | Inr False \<Rightarrow> Inr None))"

text \<open>
  The body of \<open>for campaign_id, campaign_info in campaign_data.items()\<close>; the state
  carries \<open>update_success\<close>.
\<close>

definition campaign_body ::
  "'w status_api \<Rightarrow> string \<Rightarrow> int \<Rightarrow> string \<Rightarrow> campaign_info \<Rightarrow> bool \<times> 'w run_state
     \<Rightarrow> py_error option \<times> campaign_info \<times> bool \<times> 'w run_state" where
  "campaign_body P on_off cpp_metric campaign_id campaign_info st =
     (case st of (update_success, s) \<Rightarrow>
      (let current_status = (case CAMPAIGN_STATUS campaign_info of None \<Rightarrow> [] | Some v \<Rightarrow> v);
           campaign_cpp = (case CAMPAIGN_CPP campaign_info of None \<Rightarrow> Num 0 | Some v \<Rightarrow> v);
           campaign_name = (case CAMPAIGN_NAME campaign_info of None \<Rightarrow> [] | Some v \<Rightarrow> v)
       in case campaign_new_status on_off campaign_cpp cpp_metric of
            Inl e \<Rightarrow> (Some e, campaign_info, update_success, s)
          | Inr None \<Rightarrow>
              (None, campaign_info, update_success,
               say (Campaign_remains campaign_name campaign_id current_status) s)
          | Inr (Some new_status) \<Rightarrow>
              if current_status \<noteq> new_status then
                (case update_facebook_status P campaign_id new_status s of
                   (success, s') \<Rightarrow>
                     if success then
                       (None, campaign_info\<lparr>CAMPAIGN_STATUS := Some new_status\<rparr>, True,
                        say (Updated_campaign campaign_name campaign_id new_status) s')
                     else (None, campaign_info, update_success, s'))
              else (None, campaign_info, update_success, s)))"

fun scheduled_loop ::
  "'w status_api \<Rightarrow> string \<Rightarrow> int \<Rightarrow> campaigns_data \<Rightarrow> bool \<times> 'w run_state
     \<Rightarrow> py_error option \<times> campaigns_data \<times> bool \<times> 'w run_state" where
  "scheduled_loop P on_off cpp_metric [] st = (None, [], st)"
| "scheduled_loop P on_off cpp_metric ((campaign_id, campaign_info) # rest) st =
     (case campaign_body P on_off cpp_metric campaign_id campaign_info st of
        (Some e, campaign_info', st') \<Rightarrow> (Some e, (campaign_id, campaign_info') # rest, st')
      | (None, campaign_info', st') \<Rightarrow>
          (case scheduled_loop P on_off cpp_metric rest st' of
             (r, rest', st'') \<Rightarrow> (r, (campaign_id, campaign_info') # rest', st'')))"

text \<open>
  The row of \<open>CampaignsScheduled\<close> for the account, as stored: the matched snapshot is
  written back only after a successful update (\<open>flag_modified\<close> and commit), the status
  of the last check also on a failure.
\<close>

record campaigns_scheduled =
  matched_campaign_data :: "campaigns_data option"
  last_check_status :: "string option"

datatype scheduled_result =
    No_campaign_data
  | No_matched_campaign_data_found
  | Processed_scheduled
  | Error_processing py_error
  | Uncaught py_error

text \<open>
  An exception raised before \<open>campaign_entry\<close> is assigned reaches an \<open>except\<close> clause that
  reads \<open>watch\<close> and \<open>campaign_entry\<close>, of which one is still unbound: the clause itself
  raises, and the task fails with that error.
\<close>

definition process_scheduled_campaigns ::
  "'w status_api \<Rightarrow> schedule_data \<Rightarrow> campaigns_scheduled option \<Rightarrow> 'w run_state
     \<Rightarrow> scheduled_result \<times> campaigns_scheduled option \<times> 'w run_state" where
  "process_scheduled_campaigns P schedule campaign_entry s =
     (case key_campaign_code schedule of
        None \<Rightarrow> (Uncaught UnboundLocalError, campaign_entry, s)
      | Some campaign_code \<Rightarrow>
     (case key_watch schedule of
        None \<Rightarrow> (Uncaught UnboundLocalError, campaign_entry, s)
      | Some watch \<Rightarrow>
     (case py_int (key_cpp_metric schedule) of
        Inl e \<Rightarrow> (Uncaught UnboundLocalError, campaign_entry, s)
      | Inr cpp_metric \<Rightarrow>
     (case key_on_off schedule of
        None \<Rightarrow> (Uncaught UnboundLocalError, campaign_entry, s)
      | Some on_off \<Rightarrow>
     (case campaign_entry of
        None \<Rightarrow> (No_campaign_data, None, s)
      | Some entry \<Rightarrow>
          (let campaign_data = (case matched_campaign_data entry of None \<Rightarrow> [] | Some d \<Rightarrow> d)
           in if campaign_data = [] then
                (No_matched_campaign_data_found, Some entry, say No_matched_campaign_data s)
              else
                (case (if watch = ''Campaigns''
                       then scheduled_loop P on_off cpp_metric campaign_data (False, s)
                       else (None, campaign_data, False, s)) of
                   (Some e, campaign_data', update_success, s') \<Rightarrow>
                     (Error_processing e, Some (entry\<lparr>last_check_status := Some ''Failed''\<rparr>),
                      say (Error_processing_scheduled e) s')
                 | (None, campaign_data', update_success, s') \<Rightarrow>
                     if update_success then
                       (Processed_scheduled,
                        Some (entry\<lparr>matched_campaign_data := Some campaign_data',
                                     last_check_status := Some ''Success''\<rparr>),
                        say (Successfully_updated_statuses watch) s')
                     else (Processed_scheduled, Some entry, s'))))))))"

text \<open>A schedule in mode \<open>ON\<close> with threshold 5 and one active campaign that costs 7.\<close>

definition on_schedule :: schedule_data where
  "on_schedule =
     \<lparr>key_campaign_code = Some ''P100'', key_watch = Some ''Campaigns'',
      key_cpp_metric = Number 5, key_on_off = Some ''ON'',
      key_date_start = None, key_date_end = None\<rparr>"

definition costly_campaign :: campaign_info where
  "costly_campaign =
     \<lparr>CAMPAIGN_NAME = Some ''PageA-ItemB-P100'', CAMPAIGN_STATUS = Some ''ACTIVE'',
      CAMPAIGN_CPP = Some (Num 7), ADSETS = []\<rparr>"

definition costly_entry :: campaigns_scheduled where
  "costly_entry =
     \<lparr>matched_campaign_data = Some [(''c1'', costly_campaign)], last_check_status = None\<rparr>"


section \<open>Properties of the text primitives\<close>

lemma starts_with_Nil [simp]: "starts_with [] s"
  by simp

lemma py_in_Nil: "py_in [] s"
  by (cases s) simp_all

lemma lower_char_not_alnum: "\<not> is_alnum c \<Longrightarrow> lower_char c = c"
proof -
  assume "\<not> is_alnum c"
  then have "c \<notin> set ascii_uppercase"
    by (simp add: is_alnum_def)
  then have "map_of (zip ascii_uppercase ascii_lowercase) c = None"
    by (simp add: map_of_eq_None_iff ascii_uppercase_def ascii_lowercase_def)
  then show ?thesis
    by (simp add: lower_char_def)
qed

lemma strip_non_alnum_lower_empty:
  assumes "\<forall>c \<in> set code. \<not> is_alnum c"
  shows "strip_non_alnum (py_lower code) = []"
proof -
  have "\<forall>c \<in> set code. \<not> is_alnum (lower_char c)"
    using assms by (simp add: lower_char_not_alnum)
  then show ?thesis
    by (simp add: strip_non_alnum_def py_lower_def filter_empty_conv)
qed

lemma set_strip_chars: "set (strip_chars p s) \<subseteq> set s"
proof -
  have "set (dropWhile p (rev (dropWhile p s))) \<subseteq> set (rev (dropWhile p s))"
    by (rule set_dropWhileD [THEN subsetI])
  also have "\<dots> \<subseteq> set s"
    using set_dropWhileD by fastforce
  finally show ?thesis
    by (simp add: strip_chars_def)
qed


section \<open>The code-only filter on an empty code\<close>

text \<open>
  C10. A campaign code with no alphanumeric character (the empty code among them)
  normalises to the empty string, which occurs in every normalised name: both copies of
  \<open>is_campaign_code_match\<close> then answer True for every campaign name.
\<close>

theorem empty_code_matches_every_campaign:
  assumes "\<forall>c \<in> set campaign_code. \<not> is_alnum c"
  shows "is_campaign_code_match campaign_name campaign_code
       \<and> us_is_campaign_code_match campaign_name campaign_code
       \<and> normalize_campaign_code campaign_code = []
       \<and> us_normalize_campaign_code campaign_code = []"
proof -
  have us: "us_normalize_campaign_code campaign_code = []"
    using assms by (simp add: us_normalize_campaign_code_def strip_non_alnum_lower_empty)
  have "\<forall>c \<in> set (strip_chars (\<lambda>c. c = CHR '' '' \<or> c = CHR ''-'') campaign_code). \<not> is_alnum c"
    using assms set_strip_chars by blast
  then have oo: "normalize_campaign_code campaign_code = []"
    by (simp add: normalize_campaign_code_def strip_non_alnum_lower_empty)
  show ?thesis
    by (simp add: us oo is_campaign_code_match_def us_is_campaign_code_match_def py_in_Nil)
qed

theorem empty_code_matches_every_campaign_witness:
  "\<not> (\<exists>c \<in> set '' - ''. is_alnum c)
   \<and> is_campaign_code_match ''PageA-ItemB-P100'' '' - ''
   \<and> us_is_campaign_code_match ''PageA-ItemB-P100'' '' - ''"
proof -
  have h: "\<forall>c \<in> set '' - ''. \<not> is_alnum c"
    by (simp add: is_alnum_def ascii_lowercase_def ascii_uppercase_def ascii_digits_def)
  then have n: "\<not> (\<exists>c \<in> set '' - ''. is_alnum c)"
    by blast
  note t = empty_code_matches_every_campaign [OF h, of "''PageA-ItemB-P100''"]
  show ?thesis
    by (intro conjI n t [THEN conjunct1] t [THEN conjunct2, THEN conjunct1])
qed

section \<open>The name resolver\<close>

lemmas text_eval = py_lower_def py_upper_def py_strip_def strip_chars_def lower_char_def
  upper_char_def ascii_uppercase_def ascii_lowercase_def is_space_def

lemma uppercase_all:
  "\<forall>c \<in> set ascii_uppercase. \<not> is_space c \<and> c \<noteq> CHR ''-''"
  by (simp add: text_eval)

lemma lowercase_all:
  "\<forall>c \<in> set ascii_lowercase. \<not> is_space c \<and> c \<noteq> CHR ''-''"
  by (simp add: text_eval)

lemma lower_char_cases:
  "lower_char c = c \<or> (c \<in> set ascii_uppercase \<and> lower_char c \<in> set ascii_lowercase)"
proof (cases "map_of (zip ascii_uppercase ascii_lowercase) c")
  case None
  then show ?thesis by (simp add: lower_char_def)
next
  case (Some l)
  then have "(c, l) \<in> set (zip ascii_uppercase ascii_lowercase)"
    by (rule map_of_SomeD)
  then have "c \<in> set ascii_uppercase" and "l \<in> set ascii_lowercase"
    by (auto dest: set_zip_leftD set_zip_rightD)
  with Some show ?thesis by (simp add: lower_char_def)
qed

lemma is_space_lower_char: "is_space (lower_char c) = is_space c"
  using lower_char_cases [of c] lowercase_all uppercase_all by fastforce

lemma dash_lower_char: "(lower_char c = CHR ''-'') = (c = CHR ''-'')"
  using lower_char_cases [of c] lowercase_all uppercase_all by fastforce

lemma py_split_nonempty: "py_split d s \<noteq> []"
  by (induction s) (auto split: list.splits)

lemma py_split_map:
  assumes "\<And>c. (f c = d) = (c = d)"
  shows "py_split d (map f s) = map (map f) (py_split d s)"
  using assms by (induction s) (auto split: list.splits simp: py_split_nonempty)

lemma strip_chars_map:
  assumes "\<And>c. p (f c) = p c"
  shows "strip_chars p (map f s) = map f (strip_chars p s)"
proof -
  have pf: "p \<circ> f = p" using assms by auto
  show ?thesis
    by (simp add: strip_chars_def dropWhile_map rev_map pf)
qed

text \<open>The segments of a name depend on its lowercase form only.\<close>

lemma name_parts_lower: "name_parts n = map py_strip (py_split CHR ''-'' (py_lower n))"
proof -
  have "py_split CHR ''-'' (py_lower n) = map py_lower (py_split CHR ''-'' n)"
    unfolding py_lower_def by (rule py_split_map) (rule dash_lower_char)
  moreover have "py_strip (py_lower s) = py_lower (py_strip s)" for s
    unfolding py_lower_def py_strip_def by (rule strip_chars_map) (rule is_space_lower_char)
  ultimately show ?thesis
    by (simp add: name_parts_def comp_def)
qed

lemma empty_name_parts: "name_parts [] = [[]]"
  by (simp add: name_parts_def text_eval)

text \<open>
  The guard on an empty name changes nothing: the only segment of the empty name is the
  empty string, and no non-empty component equals it.
\<close>

lemma parse_by_fields:
  "parse_campaign_name_flexible n p i c =
     \<lparr>page_name_found = (p \<noteq> [] \<and> py_lower p \<in> set (name_parts n)),
      item_name_found = (i \<noteq> [] \<and> py_lower i \<in> set (name_parts n)),
      campaign_code_found = (c \<noteq> [] \<and> py_lower c \<in> set (name_parts n))\<rparr>"
  by (auto simp: parse_campaign_name_flexible_def Let_def empty_name_parts py_lower_def)

lemma parse_case_insensitive:
  assumes "py_lower n' = py_lower n" and "py_lower p' = py_lower p"
    and "py_lower i' = py_lower i" and "py_lower c' = py_lower c"
  shows "parse_campaign_name_flexible n' p' i' c' = parse_campaign_name_flexible n p i c"
proof -
  have parts: "name_parts n' = name_parts n"
    using assms(1) by (simp add: name_parts_lower)
  have empty: "(p' = []) = (p = [])" "(i' = []) = (i = [])" "(c' = []) = (c = [])"
    using assms(2-4) by (auto simp: py_lower_def)
  show ?thesis
    by (simp add: parse_by_fields parts empty assms(2-4))
qed

lemma parse_position_independent:
  assumes "set (name_parts n') = set (name_parts n)"
  shows "parse_campaign_name_flexible n' p i c = parse_campaign_name_flexible n p i c"
  by (simp add: parse_by_fields assms)

lemma parse_example_name:
  assumes "py_lower n = ''pagea-itemb-p100''"
  shows "name_parts n = [''pagea'', ''itemb'', ''p100'']"
  by (simp add: name_parts_lower assms) (simp add: py_strip_def strip_chars_def is_space_def)

text \<open>
  C7, as the source has it. The resolver lowercases and trims each dash-delimited segment
  of the name and lowercases each expected component; internal whitespace is left as it
  is. A non-empty component is found exactly when its lowercase form is one of the
  segments, so the answer depends neither on letter case nor on the order of the
  segments. Every casing of \<open>PageA-ItemB-P100\<close> matches \<open>(pagea, itemb, p100)\<close> in all
  three components, and against \<open>(pagea, itemc, p100)\<close> only the item is not found.
\<close>

theorem name_resolver_segment_membership:
  "parse_campaign_name_flexible n p i c =
     \<lparr>page_name_found = (p \<noteq> [] \<and>
        py_lower p \<in> set (map (\<lambda>s. py_lower (py_strip s)) (py_split CHR ''-'' n))),
      item_name_found = (i \<noteq> [] \<and>
        py_lower i \<in> set (map (\<lambda>s. py_lower (py_strip s)) (py_split CHR ''-'' n))),
      campaign_code_found = (c \<noteq> [] \<and>
        py_lower c \<in> set (map (\<lambda>s. py_lower (py_strip s)) (py_split CHR ''-'' n)))\<rparr>
   \<and> (py_lower n' = py_lower n \<and> py_lower p' = py_lower p \<and> py_lower i' = py_lower i
        \<and> py_lower c' = py_lower c
      \<longrightarrow> parse_campaign_name_flexible n' p' i' c' = parse_campaign_name_flexible n p i c)
   \<and> (set (name_parts n') = set (name_parts n)
      \<longrightarrow> parse_campaign_name_flexible n' p i c = parse_campaign_name_flexible n p i c)
   \<and> (py_lower n = ''pagea-itemb-p100''
      \<longrightarrow> parse_campaign_name_flexible n ''pagea'' ''itemb'' ''p100'' =
            \<lparr>page_name_found = True, item_name_found = True, campaign_code_found = True\<rparr>
        \<and> parse_campaign_name_flexible n ''pagea'' ''itemc'' ''p100'' =
            \<lparr>page_name_found = True, item_name_found = False, campaign_code_found = True\<rparr>)"
proof (intro conjI impI)
  show "parse_campaign_name_flexible n p i c =
     \<lparr>page_name_found = (p \<noteq> [] \<and>
        py_lower p \<in> set (map (\<lambda>s. py_lower (py_strip s)) (py_split CHR ''-'' n))),
      item_name_found = (i \<noteq> [] \<and>
        py_lower i \<in> set (map (\<lambda>s. py_lower (py_strip s)) (py_split CHR ''-'' n))),
      campaign_code_found = (c \<noteq> [] \<and>
        py_lower c \<in> set (map (\<lambda>s. py_lower (py_strip s)) (py_split CHR ''-'' n)))\<rparr>"
    using parse_by_fields [of n p i c] by (simp only: name_parts_def)
next
  assume "py_lower n' = py_lower n \<and> py_lower p' = py_lower p \<and> py_lower i' = py_lower i
        \<and> py_lower c' = py_lower c"
  then show "parse_campaign_name_flexible n' p' i' c' = parse_campaign_name_flexible n p i c"
    by (intro parse_case_insensitive) blast+
next
  assume "set (name_parts n') = set (name_parts n)"
  then show "parse_campaign_name_flexible n' p i c = parse_campaign_name_flexible n p i c"
    by (rule parse_position_independent)
next
  assume n: "py_lower n = ''pagea-itemb-p100''"
  show "parse_campaign_name_flexible n ''pagea'' ''itemb'' ''p100'' =
          \<lparr>page_name_found = True, item_name_found = True, campaign_code_found = True\<rparr>"
    by (simp add: parse_by_fields parse_example_name [OF n]) (simp add: text_eval)
  show "parse_campaign_name_flexible n ''pagea'' ''itemc'' ''p100'' =
          \<lparr>page_name_found = True, item_name_found = False, campaign_code_found = True\<rparr>"
    by (simp add: parse_by_fields parse_example_name [OF n]) (simp add: text_eval)
qed

theorem name_resolver_segment_membership_witness:
  "py_lower ''P100 - ITEMB-pageA'' = py_lower ''p100 - itemb-pagea''
   \<and> py_lower ''PAGEA'' = py_lower ''pagea''
   \<and> py_lower ''ItemB'' = py_lower ''itemb''
   \<and> py_lower ''P100'' = py_lower ''p100''
   \<and> set (name_parts ''P100 - ITEMB-pageA'') = set (name_parts ''p100 - itemb-pagea'')
   \<and> py_lower ''PAGEA-itemB-p100'' = ''pagea-itemb-p100''
   \<and> parse_campaign_name_flexible ''P100 - ITEMB-pageA'' ''PAGEA'' ''ItemB'' ''P100'' =
       \<lparr>page_name_found = True, item_name_found = True, campaign_code_found = True\<rparr>
   \<and> parse_campaign_name_flexible ''PAGEA-itemB-p100'' ''pagea'' ''itemc'' ''p100'' =
       \<lparr>page_name_found = True, item_name_found = False, campaign_code_found = True\<rparr>"
proof -
  have h1a: "py_lower ''P100 - ITEMB-pageA'' = py_lower ''p100 - itemb-pagea''"
    and h1b: "py_lower ''PAGEA'' = py_lower ''pagea''"
    and h1c: "py_lower ''ItemB'' = py_lower ''itemb''"
    and h1d: "py_lower ''P100'' = py_lower ''p100''"
    by (simp_all add: text_eval)
  have h2: "set (name_parts ''P100 - ITEMB-pageA'') = set (name_parts ''p100 - itemb-pagea'')"
    by (simp add: name_parts_def text_eval)
  have h3: "py_lower ''PAGEA-itemB-p100'' = ''pagea-itemb-p100''"
    by (simp add: text_eval)
  have v: "parse_campaign_name_flexible ''p100 - itemb-pagea'' ''pagea'' ''itemb'' ''p100'' =
       \<lparr>page_name_found = True, item_name_found = True, campaign_code_found = True\<rparr>"
    by (simp add: parse_campaign_name_flexible_def name_parts_def text_eval)
  note a = name_resolver_segment_membership
    [of "''p100 - itemb-pagea''" "''pagea''" "''itemb''" "''p100''"
        "''P100 - ITEMB-pageA''" "''PAGEA''" "''ItemB''" "''P100''"]
  note b = name_resolver_segment_membership
    [of "''PAGEA-itemB-p100''" "''pagea''" "''itemb''" "''p100''"
        "''P100 - ITEMB-pageA''" "''PAGEA''" "''ItemB''" "''P100''"]
  have "parse_campaign_name_flexible ''P100 - ITEMB-pageA'' ''PAGEA'' ''ItemB'' ''P100'' =
      parse_campaign_name_flexible ''p100 - itemb-pagea'' ''pagea'' ''itemb'' ''p100''"
    by (rule a [THEN conjunct2, THEN conjunct1, THEN mp]) (intro conjI h1a h1b h1c h1d)
  then have r1:
    "parse_campaign_name_flexible ''P100 - ITEMB-pageA'' ''PAGEA'' ''ItemB'' ''P100'' =
       \<lparr>page_name_found = True, item_name_found = True, campaign_code_found = True\<rparr>"
    by (simp only: v)
  have r2:
    "parse_campaign_name_flexible ''PAGEA-itemB-p100'' ''pagea'' ''itemc'' ''p100'' =
       \<lparr>page_name_found = True, item_name_found = False, campaign_code_found = True\<rparr>"
    by (rule b [THEN conjunct2, THEN conjunct2, THEN conjunct2, THEN mp, OF h3, THEN conjunct2])
  show ?thesis
    by (intro conjI h1a h1b h1c h1d h2 h3 r1 r2)
qed

text \<open>
  The claim's normalisation collapses internal whitespace on both sides; the source's
  resolver does not. A name whose page segment has two inner spaces is found by the
  resolver of the specification and missed by the source's, also through the caller's
  own treatment of its inputs.
\<close>

theorem name_resolver_collapse_counterexample:
  "page_name_found (match_components_spec ''Page  A-ItemB-P100'' ''page a'' ''itemb'' ''p100'')
   \<and> \<not> page_name_found
         (parse_campaign_name_flexible ''Page  A-ItemB-P100'' ''page a'' ''itemb'' ''p100'')
   \<and> match_campaign_name ''Page  A-ItemB-P100'' (Some ''page a'') (Some ''itemb'') (Some ''p100'')
       = Some \<lparr>page_name_found = False, item_name_found = True, campaign_code_found = True\<rparr>"
  by (simp add: match_components_spec_def normalize_name_def match_campaign_name_def
      normalize_component_inputs_def parse_campaign_name_flexible_def name_parts_def text_eval)

section \<open>Apply and verify: the retry contract\<close>

lemma calls_say [simp]: "calls (say m s) = calls s"
  and messages_say [simp]: "messages (say m s) = messages s @ [m]"
  and world_say [simp]: "world (say m s) = world s"
  by (simp_all add: say_def)

lemma calls_sleep [simp]: "calls (sleep d s) = calls s @ [Sleep d]"
  and messages_sleep [simp]: "messages (sleep d s) = messages s"
  and world_sleep [simp]: "world (sleep d s) = world s"
  by (simp_all add: sleep_def)

lemma update_facebook_status_effect:
  assumes "update_facebook_status P entity_id new_status s = (ok, s')"
  shows "calls s' = calls s @ [Post entity_id new_status ok]"
    and "messages s' = messages s @ [if ok then Successfully_updated entity_id new_status
                                     else Error_updating entity_id new_status]"
  using assms by (auto simp: update_facebook_status_def split: prod.splits)

lemma fetch_entity_status_effect:
  assumes "fetch_entity_status P entity_id s = (r, s')"
  shows "calls s' = calls s @ [GetStatus entity_id r]" and "messages s' = messages s"
  using assms by (auto simp: fetch_entity_status_def split: prod.splits)

lemma retry_attempts_trace:
  assumes "retry_attempts P entity_id entity_name new_status max_retries as s = (ok, s')"
  shows "\<exists>ocs. length ocs \<le> length as
      \<and> calls s' = calls s @ concat (map2 (attempt_calls entity_id new_status max_retries) as ocs)
      \<and> messages s' =
          messages s @ concat (map2 (attempt_messages entity_id entity_name new_status) as ocs)
      \<and> (\<forall>oc \<in> set (butlast ocs). oc \<noteq> Read_back (Some new_status))
      \<and> (if ok then ocs \<noteq> [] \<and> last ocs = Read_back (Some new_status)
          else length ocs = length as \<and> (\<forall>oc \<in> set ocs. oc \<noteq> Read_back (Some new_status)))"
  using assms
proof (induction as arbitrary: s)
  case Nil
  then show ?case by auto
next
  case (Cons attempt rest)
  define s1 where "s1 = (if attempt > 0 then say (Retry attempt entity_name entity_id new_status) s else s)"
  obtain success s2 where upd: "update_facebook_status P entity_id new_status s1 = (success, s2)"
    by (cases "update_facebook_status P entity_id new_status s1")
  have c1: "calls s1 = calls s"
    and m1: "messages s1 = messages s @ (if attempt > 0 then [Retry attempt entity_name entity_id new_status] else [])"
    by (simp_all add: s1_def)
  note e2 = update_facebook_status_effect [OF upd]
  show ?case
  proof (cases success)
    case False
    define s5 where "s5 = (if attempt < max_retries then sleep (2 ^ attempt) s2 else s2)"
    from Cons.prems upd False
    have rest: "retry_attempts P entity_id entity_name new_status max_retries rest s5 = (ok, s')"
      by (auto simp: s1_def s5_def)
    from Cons.IH [OF rest] obtain ocs where
      len: "length ocs \<le> length rest"
      and c: "calls s' = calls s5 @ concat (map2 (attempt_calls entity_id new_status max_retries) rest ocs)"
      and m: "messages s' = messages s5 @ concat (map2 (attempt_messages entity_id entity_name new_status) rest ocs)"
      and b: "\<forall>oc \<in> set (butlast ocs). oc \<noteq> Read_back (Some new_status)"
      and f: "if ok then ocs \<noteq> [] \<and> last ocs = Read_back (Some new_status)
          else length ocs = length rest \<and> (\<forall>oc \<in> set ocs. oc \<noteq> Read_back (Some new_status))"
      by blast
    have c5: "calls s5 = calls s @ attempt_calls entity_id new_status max_retries attempt Write_failed"
      using False by (simp add: s5_def e2 c1 attempt_calls_def)
    have m5: "messages s5 = messages s @ attempt_messages entity_id entity_name new_status attempt Write_failed"
      using False by (simp add: s5_def e2 m1 attempt_messages_def)
    show ?thesis
    proof (intro exI [of _ "Write_failed # ocs"] conjI)
      show "length (Write_failed # ocs) \<le> length (attempt # rest)" using len by simp
      show "calls s' = calls s @ concat (map2 (attempt_calls entity_id new_status max_retries) (attempt # rest) (Write_failed # ocs))"
        by (simp add: c c5)
      show "messages s' = messages s @ concat (map2 (attempt_messages entity_id entity_name new_status) (attempt # rest) (Write_failed # ocs))"
        by (simp add: m m5)
      show "\<forall>oc \<in> set (butlast (Write_failed # ocs)). oc \<noteq> Read_back (Some new_status)"
        using b by auto
      show "if ok then Write_failed # ocs \<noteq> [] \<and> last (Write_failed # ocs) = Read_back (Some new_status)
          else length (Write_failed # ocs) = length (attempt # rest)
             \<and> (\<forall>oc \<in> set (Write_failed # ocs). oc \<noteq> Read_back (Some new_status))"
        using f by auto
    qed
  next
    case True
    obtain r s3 where rd: "fetch_entity_status P entity_id (sleep 1 s2) = (r, s3)"
      by (cases "fetch_entity_status P entity_id (sleep 1 s2)")
    note e3 = fetch_entity_status_effect [OF rd]
    have c3: "calls s3 = calls s @ [Post entity_id new_status True, Sleep 1, GetStatus entity_id r]"
      using True by (simp add: e3 e2 c1)
    have m3: "messages s3 = messages s @ (if attempt > 0 then [Retry attempt entity_name entity_id new_status] else [])
        @ [Successfully_updated entity_id new_status]"
      using True by (simp add: e3 e2 m1)
    show ?thesis
    proof (cases "r = Some new_status")
      case verified: True
      from Cons.prems upd True rd verified
      have res: "ok" "s' = say (Verified entity_name new_status) s3"
        by (auto simp: s1_def)
      show ?thesis
        by (rule exI [of _ "[Read_back r]"])
          (simp add: res c3 m3 verified attempt_calls_def attempt_messages_def)
    next
      case mismatch: False
      define s4 where "s4 = say (Warning_status_mismatch entity_name new_status r) s3"
      define s5 where "s5 = (if attempt < max_retries then sleep (2 ^ attempt) s4 else s4)"
      from Cons.prems upd True rd mismatch
      have rest: "retry_attempts P entity_id entity_name new_status max_retries rest s5 = (ok, s')"
        by (auto simp: s1_def s4_def s5_def)
      from Cons.IH [OF rest] obtain ocs where
        len: "length ocs \<le> length rest"
        and c: "calls s' = calls s5 @ concat (map2 (attempt_calls entity_id new_status max_retries) rest ocs)"
        and m: "messages s' = messages s5 @ concat (map2 (attempt_messages entity_id entity_name new_status) rest ocs)"
        and b: "\<forall>oc \<in> set (butlast ocs). oc \<noteq> Read_back (Some new_status)"
        and f: "if ok then ocs \<noteq> [] \<and> last ocs = Read_back (Some new_status)
            else length ocs = length rest \<and> (\<forall>oc \<in> set ocs. oc \<noteq> Read_back (Some new_status))"
        by blast
      have c5: "calls s5 = calls s @ attempt_calls entity_id new_status max_retries attempt (Read_back r)"
        using mismatch by (simp add: s5_def s4_def c3 attempt_calls_def)
      have m5: "messages s5 = messages s @ attempt_messages entity_id entity_name new_status attempt (Read_back r)"
        using mismatch by (simp add: s5_def s4_def m3 attempt_messages_def)
      show ?thesis
      proof (intro exI [of _ "Read_back r # ocs"] conjI)
        show "length (Read_back r # ocs) \<le> length (attempt # rest)" using len by simp
        show "calls s' = calls s @ concat (map2 (attempt_calls entity_id new_status max_retries) (attempt # rest) (Read_back r # ocs))"
          by (simp add: c c5)
        show "messages s' = messages s @ concat (map2 (attempt_messages entity_id entity_name new_status) (attempt # rest) (Read_back r # ocs))"
          by (simp add: m m5)
        show "\<forall>oc \<in> set (butlast (Read_back r # ocs)). oc \<noteq> Read_back (Some new_status)"
          using b mismatch by auto
        show "if ok then Read_back r # ocs \<noteq> [] \<and> last (Read_back r # ocs) = Read_back (Some new_status)
            else length (Read_back r # ocs) = length (attempt # rest)
               \<and> (\<forall>oc \<in> set (Read_back r # ocs). oc \<noteq> Read_back (Some new_status))"
          using f mismatch by auto
      qed
    qed
  qed
qed


text \<open>
  C4. With the default budget the function makes between one and three attempts. Each
  attempt posts the status; after a write that went through it sleeps one second and
  reads the status back. An attempt whose write failed or whose read-back is not the
  target is followed, unless it was the last, by a sleep of \<open>2 ^ attempt\<close> seconds and
  the next attempt; a read-back that differs is reported with a warning. The function
  answers True exactly when the last attempt made read the target back, and gives up
  only after three attempts.
\<close>

theorem retry_three_attempts_with_read_back:
  assumes "update_facebook_status_with_retry P entity_id entity_name new_status
             default_max_retries s = (ok, s')"
  shows "\<exists>ocs. ocs \<noteq> [] \<and> length ocs \<le> 3
      \<and> calls s' = calls s @ concat (map2 (attempt_calls entity_id new_status 2) [0, 1, 2] ocs)
      \<and> messages s' =
          messages s
          @ concat (map2 (attempt_messages entity_id entity_name new_status) [0, 1, 2] ocs)
          @ (if ok then [] else [Failed_to_update_after entity_name new_status 3])
      \<and> (\<forall>oc \<in> set (butlast ocs). oc \<noteq> Read_back (Some new_status))
      \<and> (ok \<longleftrightarrow> last ocs = Read_back (Some new_status))
      \<and> (\<not> ok \<longrightarrow> length ocs = 3)"
proof -
  have run: "(case retry_attempts P entity_id entity_name new_status 2 [0, 1, 2] s of
        (True, s') \<Rightarrow> (True, s')
      | (False, s') \<Rightarrow> (False, say (Failed_to_update_after entity_name new_status 3) s'))
      = (ok, s')"
  proof -
    have upt3: "[0..<(3::nat)] = [0, 1, 2]"
      by code_simp
    have three: "(2::nat) + 1 = 3"
      by simp
    show ?thesis
      using assms
      by (simp only: update_facebook_status_with_retry_def default_max_retries_def upt3 three)
  qed
  obtain ok1 s1 where loop:
    "retry_attempts P entity_id entity_name new_status 2 [0, 1, 2] s = (ok1, s1)"
    by (cases "retry_attempts P entity_id entity_name new_status 2 [0, 1, 2] s")
  from run loop have ok: "ok1 = ok"
    and s': "s' = (if ok then s1 else say (Failed_to_update_after entity_name new_status 3) s1)"
    by (cases ok1; simp del: retry_attempts.simps; blast)+
  from retry_attempts_trace [OF loop] obtain ocs where
    len: "length ocs \<le> length [0, 1, 2::nat]"
    and c: "calls s1 = calls s @ concat (map2 (attempt_calls entity_id new_status 2) [0, 1, 2] ocs)"
    and m: "messages s1 =
        messages s @ concat (map2 (attempt_messages entity_id entity_name new_status) [0, 1, 2] ocs)"
    and b: "\<forall>oc \<in> set (butlast ocs). oc \<noteq> Read_back (Some new_status)"
    and f: "if ok1 then ocs \<noteq> [] \<and> last ocs = Read_back (Some new_status)
        else length ocs = length [0, 1, 2::nat]
           \<and> (\<forall>oc \<in> set ocs. oc \<noteq> Read_back (Some new_status))"
    by blast
  have ne: "ocs \<noteq> []"
    using f by (auto split: if_splits)
  have iff: "ok \<longleftrightarrow> last ocs = Read_back (Some new_status)"
    using f ne ok by (auto split: if_splits)
  have full: "\<not> ok \<longrightarrow> length ocs = 3"
    using f ok by (auto split: if_splits)
  show ?thesis
  proof (intro exI [of _ ocs] conjI)
    show "ocs \<noteq> []" by (rule ne)
    show "length ocs \<le> 3" using len by simp
    show "calls s' = calls s @ concat (map2 (attempt_calls entity_id new_status 2) [0, 1, 2] ocs)"
      by (simp add: s' c)
    show "messages s' =
          messages s
          @ concat (map2 (attempt_messages entity_id entity_name new_status) [0, 1, 2] ocs)
          @ (if ok then [] else [Failed_to_update_after entity_name new_status 3])"
      by (simp add: s' m)
    show "\<forall>oc \<in> set (butlast ocs). oc \<noteq> Read_back (Some new_status)" by (rule b)
    show "ok \<longleftrightarrow> last ocs = Read_back (Some new_status)" by (rule iff)
    show "\<not> ok \<longrightarrow> length ocs = 3" by (rule full)
  qed
qed


theorem retry_three_attempts_with_read_back_witness:
  "\<exists>s'. update_facebook_status_with_retry ignoring_platform ''a1'' ''one'' ''PAUSED''
          default_max_retries active_start = (False, s')
     \<and> (\<exists>ocs. ocs \<noteq> [] \<and> length ocs \<le> 3
      \<and> calls s' = calls active_start
            @ concat (map2 (attempt_calls ''a1'' ''PAUSED'' 2) [0, 1, 2] ocs)
      \<and> messages s' =
          messages active_start
          @ concat (map2 (attempt_messages ''a1'' ''one'' ''PAUSED'') [0, 1, 2] ocs)
          @ (if False then [] else [Failed_to_update_after ''one'' ''PAUSED'' 3])
      \<and> (\<forall>oc \<in> set (butlast ocs). oc \<noteq> Read_back (Some ''PAUSED''))
      \<and> (False \<longleftrightarrow> last ocs = Read_back (Some ''PAUSED''))
      \<and> (\<not> False \<longrightarrow> length ocs = 3))"
proof -
  define s' where "s' = snd (update_facebook_status_with_retry ignoring_platform ''a1'' ''one''
      ''PAUSED'' default_max_retries active_start)"
  have "fst (update_facebook_status_with_retry ignoring_platform ''a1'' ''one''
      ''PAUSED'' default_max_retries active_start) = False"
    by (simp add: update_facebook_status_with_retry_def default_max_retries_def upt_rec
        ignoring_platform_def active_start_def update_facebook_status_def
        fetch_entity_status_def say_def sleep_def)
  then have h: "update_facebook_status_with_retry ignoring_platform ''a1'' ''one'' ''PAUSED''
      default_max_retries active_start = (False, s')"
    unfolding s'_def by (metis prod.collapse)
  show ?thesis
    by (rule exI [of _ s'], rule conjI [OF h retry_three_attempts_with_read_back [OF h]])
qed

section \<open>The cost metric of an item\<close>

lemma py_max_Max: "py_max xs = (if xs = [] then 0 else Max (set xs))"
proof (cases xs)
  case Nil
  then show ?thesis by simp
next
  case (Cons a list)
  then show ?thesis by (simp add: Max.set_eq_fold del: set_simps)
qed

lemma collect_well_formed:
  assumes "\<forall>a \<in> set as. act_value a \<noteq> Malformed"
  shows "collect_checkout_values as acc =
     Inr (acc @ map (\<lambda>a. number_of (act_value a))
       (filter (\<lambda>a. \<exists>t \<in> set checkout_actions. act_action_type a = Some t) as))"
  using assms
proof (induction as arbitrary: acc)
  case Nil
  then show ?case by simp
next
  case (Cons a as)
  have m: "(case act_action_type a of None \<Rightarrow> False | Some action_type \<Rightarrow> action_type \<in> set checkout_actions)
      = (\<exists>t \<in> set checkout_actions. act_action_type a = Some t)"
    by (cases "act_action_type a") auto
  from Cons.prems have v: "py_float (act_value a) = Inr (number_of (act_value a))"
    by (cases "act_value a") (simp_all add: py_float_def number_of_def)
  from Cons.prems have "\<forall>a \<in> set as. act_value a \<noteq> Malformed" by simp
  note IH = Cons.IH [OF this]
  show ?case
    by (simp only: collect_checkout_values.simps v m sum.case IH) simp
qed

lemma item_cpp_well_formed:
  assumes "well_formed_item item"
  shows "item_cpp item =
     Inr (if outcome_count item > 0 then Num (number_of (item_spend item) / outcome_count item) else Inf)"
proof -
  from assms have sp: "py_float (item_spend item) = Inr (number_of (item_spend item))"
    by (cases "item_spend item") (simp_all add: py_float_def number_of_def well_formed_item_def)
  from assms obtain i where im: "py_float (item_impressions item) = Inr i"
    by (cases "item_impressions item") (simp_all add: py_float_def well_formed_item_def)
  from assms have co: "collect_checkout_values (item_actions item) [] = Inr (recognised_values item)"
    by (simp add: collect_well_formed well_formed_item_def recognised_values_def)
  have cnt: "(if recognised_values item \<noteq> [] then py_max (recognised_values item) else 0) = outcome_count item"
    by (simp add: outcome_count_def py_max_Max del: py_max.simps)
  show ?thesis
    unfolding item_cpp_def sp im co by (simp add: cnt py_div_def Let_def)
qed

lemma item_cpp_never_divides_by_zero: "item_cpp item \<noteq> Inl ZeroDivisionError"
proof -
  have f: "py_float v \<noteq> Inl ZeroDivisionError" for v
    by (cases v) (simp_all add: py_float_def)
  have c: "collect_checkout_values as acc \<noteq> Inl ZeroDivisionError" for as acc
  proof (induction as arbitrary: acc)
    case Nil
    then show ?case by simp
  next
    case (Cons a as)
    then show ?case using f [of "act_value a"]
      by (cases "py_float (act_value a)") simp_all
  qed
  show ?thesis
    using f [of "item_spend item"] f [of "item_impressions item"] c [of "item_actions item" "[]"]
    by (auto simp: item_cpp_def py_div_def Let_def split: sum.splits)
qed


lemma outcome_count_is_maximum:
  assumes "recognised_values item \<noteq> []"
  shows "outcome_count item \<in> set (recognised_values item)"
    and "\<forall>v \<in> set (recognised_values item). v \<le> outcome_count item"
  using assms by (simp_all add: outcome_count_def)

text \<open>
  C3. For an item whose numbers parse, the outcome count is the largest value among its
  recognised checkout action types (one of the observed values, not their sum), the
  metric is spend divided by that count when the count is positive, and the undefined
  sentinel otherwise; in particular a count of zero gives the sentinel, which is not the
  number zero. No item makes the division fail.
\<close>

theorem cost_metric_is_spend_over_max_count:
  "item_cpp item \<noteq> Inl ZeroDivisionError
   \<and> (well_formed_item item \<longrightarrow>
        item_cpp item =
          Inr (if outcome_count item > 0
               then Num (number_of (item_spend item) / outcome_count item) else Inf)
        \<and> (recognised_values item \<noteq> [] \<longrightarrow>
             outcome_count item \<in> set (recognised_values item)
             \<and> (\<forall>v \<in> set (recognised_values item). v \<le> outcome_count item))
        \<and> (outcome_count item = 0 \<longrightarrow> item_cpp item = Inr Inf \<and> item_cpp item \<noteq> Inr (Num 0)))"
proof (intro conjI impI)
  show "item_cpp item \<noteq> Inl ZeroDivisionError"
    by (rule item_cpp_never_divides_by_zero)
next
  assume "well_formed_item item"
  then show "item_cpp item =
      Inr (if outcome_count item > 0
           then Num (number_of (item_spend item) / outcome_count item) else Inf)"
    by (rule item_cpp_well_formed)
next
  assume "recognised_values item \<noteq> []"
  then show "outcome_count item \<in> set (recognised_values item)"
    and "\<forall>v \<in> set (recognised_values item). v \<le> outcome_count item"
    by (rule outcome_count_is_maximum)+
next
  assume "well_formed_item item" and "outcome_count item = 0"
  then show "item_cpp item = Inr Inf" and "item_cpp item \<noteq> Inr (Num 0)"
    by (simp_all add: item_cpp_well_formed)
qed

theorem cost_metric_is_spend_over_max_count_witness:
  "well_formed_item example_item
   \<and> recognised_values example_item = [3, 5]
   \<and> outcome_count example_item = 5
   \<and> item_cpp example_item = Inr (Num (30 / 5))
   \<and> well_formed_item (example_item\<lparr>item_actions := []\<rparr>)
   \<and> outcome_count (example_item\<lparr>item_actions := []\<rparr>) = 0
   \<and> item_cpp (example_item\<lparr>item_actions := []\<rparr>) = Inr Inf"
proof -
  have wf: "well_formed_item example_item"
    by (simp add: well_formed_item_def example_item_def)
  have rv: "recognised_values example_item = [3, 5]"
    by (simp add: recognised_values_def example_item_def checkout_actions_def number_of_def)
  have oc: "outcome_count example_item = 5"
    by (simp add: outcome_count_def rv)
  have sp: "number_of (item_spend example_item) = 30"
    by (simp add: example_item_def number_of_def)
  have wf0: "well_formed_item (example_item\<lparr>item_actions := []\<rparr>)"
    by (simp add: well_formed_item_def example_item_def)
  have oc0: "outcome_count (example_item\<lparr>item_actions := []\<rparr>) = 0"
    by (simp add: outcome_count_def recognised_values_def)
  from cost_metric_is_spend_over_max_count [of example_item] wf
  have "item_cpp example_item =
      Inr (if outcome_count example_item > 0
           then Num (number_of (item_spend example_item) / outcome_count example_item) else Inf)"
    by (rule conjunct2 [THEN mp, THEN conjunct1])
  then have v: "item_cpp example_item = Inr (Num (30 / 5))"
    by (simp add: oc sp)
  from cost_metric_is_spend_over_max_count [of "example_item\<lparr>item_actions := []\<rparr>"] wf0
  have "outcome_count (example_item\<lparr>item_actions := []\<rparr>) = 0 \<longrightarrow>
      item_cpp (example_item\<lparr>item_actions := []\<rparr>) = Inr Inf
      \<and> item_cpp (example_item\<lparr>item_actions := []\<rparr>) \<noteq> Inr (Num 0)"
    by (rule conjunct2 [THEN mp, THEN conjunct2, THEN conjunct2])
  with oc0 have v0: "item_cpp (example_item\<lparr>item_actions := []\<rparr>) = Inr Inf"
    by (rule_tac conjunct1) (erule mp)
  show ?thesis
    by (intro conjI wf rv oc v wf0 oc0 v0)
qed

section \<open>The ad-set decision pass\<close>

lemma attempt_calls_touch: "c \<in> set (attempt_calls e new m a oc) \<Longrightarrow> touches_only e new c"
  by (cases oc) (auto simp: attempt_calls_def touches_only_def split: if_splits)

lemma attempt_calls_post: "\<exists>b. Post e new b \<in> set (attempt_calls e new m a oc)"
  by (cases oc) (auto simp: attempt_calls_def)

lemma retry_attempts_shape:
  assumes "retry_attempts P e n new m as s = (ok, s')"
  shows "\<exists>tr. calls s' = calls s @ tr \<and> (\<forall>c \<in> set tr. touches_only e new c)
      \<and> (as \<noteq> [] \<longrightarrow> (\<exists>b. Post e new b \<in> set tr))"
proof -
  from retry_attempts_trace [OF assms] obtain ocs where
    c: "calls s' = calls s @ concat (map2 (attempt_calls e new m) as ocs)"
    and f: "if ok then ocs \<noteq> [] \<and> last ocs = Read_back (Some new)
        else length ocs = length as \<and> (\<forall>oc \<in> set ocs. oc \<noteq> Read_back (Some new))"
    by blast
  let ?tr = "concat (map2 (attempt_calls e new m) as ocs)"
  have t: "\<forall>c \<in> set ?tr. touches_only e new c"
    by (auto dest: attempt_calls_touch)
  have p: "as \<noteq> [] \<longrightarrow> (\<exists>b. Post e new b \<in> set ?tr)"
  proof
    assume "as \<noteq> []"
    with f have "ocs \<noteq> []" by (auto split: if_splits)
    with \<open>as \<noteq> []\<close> obtain a as' oc ocs' where "as = a # as'" "ocs = oc # ocs'"
      by (cases as; cases ocs) auto
    then show "\<exists>b. Post e new b \<in> set ?tr"
      using attempt_calls_post [of e new m a oc] by auto
  qed
  from c t p show ?thesis by blast
qed

lemma retry_attempts_True_last:
  assumes "retry_attempts P e n new m as s = (True, s')"
  shows "calls s' \<noteq> [] \<and> last (calls s') = GetStatus e (Some new)"
proof -
  from retry_attempts_trace [OF assms] obtain ocs where
    len: "length ocs \<le> length as"
    and c: "calls s' = calls s @ concat (map2 (attempt_calls e new m) as ocs)"
    and ne: "ocs \<noteq> []" and l: "last ocs = Read_back (Some new)"
    by auto
  from ne obtain ocs' where ocs: "ocs = ocs' @ [Read_back (Some new)]"
    using l by (metis append_butlast_last_id)
  from len ocs have "length ocs' < length as" by simp
  then obtain as1 a as2 where as: "as = as1 @ a # as2" and l1: "length as1 = length ocs'"
    by (metis id_take_nth_drop length_take min.absorb2 less_imp_le_nat)
  have "zip as ocs = zip as1 ocs' @ [(a, Read_back (Some new))]"
    using l1 by (simp add: as ocs zip_append)
  then have "concat (map2 (attempt_calls e new m) as ocs) =
      concat (map2 (attempt_calls e new m) as1 ocs') @ [Post e new True, Sleep 1, GetStatus e (Some new)]"
    by (simp add: attempt_calls_def)
  with c show ?thesis by simp
qed

lemma retry_shape:
  assumes "update_facebook_status_with_retry P e n new m s = (ok, s')"
  shows "\<exists>tr. calls s' = calls s @ tr \<and> (\<forall>c \<in> set tr. touches_only e new c)
      \<and> (\<exists>b. Post e new b \<in> set tr)"
    and "ok \<longrightarrow> calls s' \<noteq> [] \<and> last (calls s') = GetStatus e (Some new)"
proof -
  obtain ok1 s1 where loop: "retry_attempts P e n new m [0..<m + 1] s = (ok1, s1)"
    by (cases "retry_attempts P e n new m [0..<m + 1] s")
  from assms loop have ok: "ok1 = ok" and c: "calls s' = calls s1"
    by (auto simp: update_facebook_status_with_retry_def split: bool.splits simp del: upt_Suc)
  have ne: "[0..<m + 1] \<noteq> []" by simp
  from retry_attempts_shape [OF loop] ne c
  show "\<exists>tr. calls s' = calls s @ tr \<and> (\<forall>c \<in> set tr. touches_only e new c)
      \<and> (\<exists>b. Post e new b \<in> set tr)"
    by auto
  show "ok \<longrightarrow> calls s' \<noteq> [] \<and> last (calls s') = GetStatus e (Some new)"
    using retry_attempts_True_last [of P e n new m "[0..<m + 1]" s s1] loop ok c by auto
qed

lemma run_tell [simp]: "run (tell m ls) = say m (run ls)"
  and target_status_tell [simp]: "target_status (tell m ls) = target_status ls"
  and total_processed_tell [simp]: "total_processed (tell m ls) = total_processed ls"
  and total_updated_tell [simp]: "total_updated (tell m ls) = total_updated ls"
  by (simp_all add: tell_def)

lemma apply_decision_unbound:
  "target_status ls = None \<Longrightarrow>
   apply_decision P adset_id adset_name current_status adset_info ls =
     (Some UnboundLocalError, adset_info, ls)"
  by (simp add: apply_decision_def)

lemma apply_decision_bound:
  assumes t: "target_status ls = Some target"
    and r: "apply_decision P adset_id adset_name current_status adset_info ls = (raised, adset_info', ls')"
  shows "raised = None \<and> target_status ls' = Some target
     \<and> total_processed ls' = total_processed ls
     \<and> (adset_info' = adset_info \<and> total_updated ls' = total_updated ls
        \<or> adset_info' = adset_info\<lparr>STATUS := Some target\<rparr>
          \<and> total_updated ls' = total_updated ls + 1
          \<and> calls (run ls') \<noteq> [] \<and> last (calls (run ls')) = GetStatus adset_id (Some target))
     \<and> (\<exists>tr. calls (run ls') = calls (run ls) @ tr
          \<and> (\<forall>c \<in> set tr. touches_only adset_id target c)
          \<and> (current_status \<noteq> target \<longrightarrow> (\<exists>b. Post adset_id target b \<in> set tr))
          \<and> (current_status = target \<longrightarrow> tr = []))"
proof (cases "current_status = target")
  case True
  with t r show ?thesis
    by (auto simp: apply_decision_def Let_def)
next
  case False
  let ?s = "run (tell (Updating adset_name current_status target)
      (tell (Decision adset_name current_status target) ls))"
  obtain ok s' where u: "update_facebook_status_with_retry P adset_id adset_name target
      default_max_retries ?s = (ok, s')"
    by (cases "update_facebook_status_with_retry P adset_id adset_name target
      default_max_retries ?s")
  note sh = retry_shape [OF u]
  have cs: "calls ?s = calls (run ls)" by simp
  from sh(1) cs obtain tr where tr: "calls s' = calls (run ls) @ tr"
    "\<forall>c \<in> set tr. touches_only adset_id target c" "\<exists>b. Post adset_id target b \<in> set tr"
    by auto
  show ?thesis
  proof (cases ok)
    case True
    with t r u False have res: "raised = None" "adset_info' = adset_info\<lparr>STATUS := Some target\<rparr>"
      "ls' = tell (Updated_ok adset_name target)
         ((tell (Decision adset_name current_status target) ls)
            \<lparr>run := s', total_updated := total_updated (tell (Decision adset_name current_status target) ls) + 1\<rparr>)"
      by (auto simp: apply_decision_def Let_def)
    from sh(2) True have "calls s' \<noteq> [] \<and> last (calls s') = GetStatus adset_id (Some target)"
      by simp
    then show ?thesis
      using tr False t by (simp add: res tell_def)
  next
    case f: False
    with t r u False have res: "raised = None" "adset_info' = adset_info"
      "ls' = tell (Update_failed adset_name target)
         ((tell (Decision adset_name current_status target) ls)\<lparr>run := s'\<rparr>)"
      by (auto simp: apply_decision_def Let_def)
    show ?thesis
      using tr False t by (simp add: res tell_def)
  qed
qed

lemma adset_body_undefined:
  assumes "CPP adset_info = Some Inf \<or> CPP adset_info = Some PyNone"
  shows "adset_body P on_off cpp_metric adset_id adset_info ls =
     (if current_status_of adset_info \<noteq> ''PAUSED'' then
        apply_decision P adset_id (adset_name_of adset_info) (current_status_of adset_info)
          adset_info
          (tell (No_sales_will_turn_off (adset_name_of adset_info))
             (ls\<lparr>total_processed := total_processed ls + 1, target_status := Some ''PAUSED''\<rparr>))
      else (None, adset_info,
            tell (Already_off_no_sales (adset_name_of adset_info))
              (ls\<lparr>total_processed := total_processed ls + 1\<rparr>)))"
  using assms
  by (elim disjE) (simp_all add: adset_body_def Let_def adset_name_of_def current_status_of_def)

lemma adset_body_zero:
  assumes "CPP adset_info = Some (Num 0) \<or> CPP adset_info = None"
  shows "adset_body P on_off cpp_metric adset_id adset_info ls =
     (None, adset_info,
      tell (Skipping_no_spend (adset_name_of adset_info))
        (ls\<lparr>total_processed := total_processed ls + 1\<rparr>))"
  using assms
  by (elim disjE) (simp_all add: adset_body_def Let_def adset_name_of_def)

lemma adset_body_number:
  assumes "CPP adset_info = Some (Num c)" and "c \<noteq> 0"
  shows "adset_body P on_off cpp_metric adset_id adset_info ls =
     (if on_off = ''OFF'' then
        (if c \<ge> cpp_metric then
           apply_decision P adset_id (adset_name_of adset_info) (current_status_of adset_info)
             adset_info
             (ls\<lparr>total_processed := total_processed ls + 1, target_status := Some ''PAUSED''\<rparr>)
         else (None, adset_info,
               tell (Will_remain (adset_name_of adset_info) (current_status_of adset_info))
                 (ls\<lparr>total_processed := total_processed ls + 1\<rparr>)))
      else if on_off = ''ON'' then
        apply_decision P adset_id (adset_name_of adset_info) (current_status_of adset_info)
          adset_info
          (ls\<lparr>total_processed := total_processed ls + 1,
               target_status := Some (if c < cpp_metric then ''ACTIVE'' else ''PAUSED'')\<rparr>)
      else
        apply_decision P adset_id (adset_name_of adset_info) (current_status_of adset_info)
          adset_info (ls\<lparr>total_processed := total_processed ls + 1\<rparr>))"
  using assms by (simp add: adset_body_def Let_def adset_name_of_def current_status_of_def)


lemma apply_decision_frame:
  assumes "apply_decision P adset_id adset_name current_status adset_info ls2 =
      (raised, adset_info', ls')"
  shows "(adset_info' = adset_info \<and> total_updated ls' = total_updated ls2
       \<or> (\<exists>target. adset_info' = adset_info\<lparr>STATUS := Some target\<rparr>
            \<and> total_updated ls' = total_updated ls2 + 1
            \<and> calls (run ls') \<noteq> [] \<and> last (calls (run ls')) = GetStatus adset_id (Some target)))
     \<and> (raised \<noteq> None \<longrightarrow> raised = Some UnboundLocalError \<and> target_status ls2 = None
          \<and> calls (run ls') = calls (run ls2))
     \<and> total_processed ls' = total_processed ls2"
proof (cases "target_status ls2")
  case None
  with assms show ?thesis
    by (simp add: apply_decision_unbound)
next
  case (Some target)
  from apply_decision_bound [OF Some assms] show ?thesis
    by blast
qed

lemma body_frame_skip:
  "body_frame on_off adset_id adset_info ls
     (None, adset_info, tell m (ls\<lparr>total_processed := total_processed ls + 1\<rparr>))"
  by (simp add: body_frame_def)

lemma body_frame_continue:
  assumes "calls (run ls2) = calls (run ls)" and "total_updated ls2 = total_updated ls"
    and "total_processed ls2 = total_processed ls + 1"
  shows "body_frame on_off adset_id adset_info ls (None, adset_info, ls2)"
  using assms by (simp add: body_frame_def)

lemma body_frame_decide:
  assumes "calls (run ls2) = calls (run ls)" and "total_updated ls2 = total_updated ls"
    and "total_processed ls2 = total_processed ls + 1"
    and "target_status ls2 = None \<longrightarrow> on_off \<noteq> ''ON'' \<and> on_off \<noteq> ''OFF''"
  shows "body_frame on_off adset_id adset_info ls
     (apply_decision P adset_id adset_name current_status adset_info ls2)"
proof -
  obtain raised adset_info' ls' where r:
    "apply_decision P adset_id adset_name current_status adset_info ls2 = (raised, adset_info', ls')"
    by (cases "apply_decision P adset_id adset_name current_status adset_info ls2")
  from apply_decision_frame [OF r] assms show ?thesis
    unfolding r body_frame_def by auto
qed

lemma adset_body_body_frame:
  "body_frame on_off adset_id adset_info ls (adset_body P on_off cpp_metric adset_id adset_info ls)"
proof (cases "CPP adset_info")
  case None
  then have eq: "CPP adset_info = Some (Num 0) \<or> CPP adset_info = None" by simp
  show ?thesis
    unfolding adset_body_zero [OF eq] by (rule body_frame_skip)
next
  case (Some v)
  show ?thesis
  proof (cases v)
    case (Num c)
    show ?thesis
    proof (cases "c = 0")
      case True
      with Some Num have eq: "CPP adset_info = Some (Num 0) \<or> CPP adset_info = None" by simp
      show ?thesis
        unfolding adset_body_zero [OF eq] by (rule body_frame_skip)
    next
      case False
      with Some Num have eq: "CPP adset_info = Some (Num c)" "c \<noteq> 0" by simp_all
      show ?thesis
        unfolding adset_body_number [OF eq]
        by (auto split: if_split intro!: body_frame_continue body_frame_decide)
    qed
  next
    case Inf
    with Some have eq: "CPP adset_info = Some Inf \<or> CPP adset_info = Some PyNone" by simp
    show ?thesis
      unfolding adset_body_undefined [OF eq]
      by (auto split: if_split intro!: body_frame_continue body_frame_decide)
  next
    case PyNone
    with Some have eq: "CPP adset_info = Some Inf \<or> CPP adset_info = Some PyNone" by simp
    show ?thesis
      unfolding adset_body_undefined [OF eq]
      by (auto split: if_split intro!: body_frame_continue body_frame_decide)
  qed
qed

lemma adset_body_frame:
  assumes "adset_body P on_off cpp_metric adset_id adset_info ls = (raised, adset_info', ls')"
  shows "body_frame on_off adset_id adset_info ls (raised, adset_info', ls')"
  using adset_body_body_frame [of on_off adset_id adset_info ls P cpp_metric] assms by simp

lemma adsets_loop_never_aborts:
  assumes "on_off = ''ON'' \<or> on_off = ''OFF''"
  shows "case adsets_loop P on_off cpp_metric adsets ls of
      (r, out, ls') \<Rightarrow> r = None \<and> map fst out = map fst adsets
        \<and> total_processed ls' = total_processed ls + length adsets"
proof (induction adsets arbitrary: ls)
  case Nil
  then show ?case by simp
next
  case (Cons a adsets)
  obtain adset_id adset_info where a: "a = (adset_id, adset_info)" by (cases a)
  obtain raised adset_info' ls' where b:
    "adset_body P on_off cpp_metric adset_id adset_info ls = (raised, adset_info', ls')"
    by (cases "adset_body P on_off cpp_metric adset_id adset_info ls")
  from adset_body_frame [OF b] assms have r: "raised = None"
    and tp: "total_processed ls' = total_processed ls + 1"
    by (auto simp: body_frame_def)
  obtain r' out' ls'' where l: "adsets_loop P on_off cpp_metric adsets ls' = (r', out', ls'')"
    by (cases "adsets_loop P on_off cpp_metric adsets ls'")
  from Cons.IH [of ls'] l have "r' = None" "map fst out' = map fst adsets"
    "total_processed ls'' = total_processed ls' + length adsets"
    by auto
  then show ?case
    using b r l tp by (simp add: a)
qed

text \<open>
  C1. For an ad set whose metric is the undefined sentinel (\<open>inf\<close>, or \<open>None\<close>), whatever
  the mode, the threshold and the state the loop is in: no exception is raised; an ad
  set that is already \<open>PAUSED\<close> is left as it is and no call is made; any other is given
  the target \<open>PAUSED\<close>, the update to \<open>PAUSED\<close> is issued for it (and nothing else is
  written), and its snapshot status becomes \<open>PAUSED\<close> once the platform confirms it.
\<close>

theorem undefined_metric_targets_paused:
  assumes "CPP adset_info = Some Inf \<or> CPP adset_info = Some PyNone"
    and "adset_body P on_off cpp_metric adset_id adset_info ls = (raised, adset_info', ls')"
  shows "raised = None
     \<and> (current_status_of adset_info = ''PAUSED'' \<longrightarrow>
          adset_info' = adset_info \<and> calls (run ls') = calls (run ls))
     \<and> (current_status_of adset_info \<noteq> ''PAUSED'' \<longrightarrow>
          target_status ls' = Some ''PAUSED''
          \<and> (adset_info' = adset_info
             \<or> adset_info' = adset_info\<lparr>STATUS := Some ''PAUSED''\<rparr>
               \<and> last (calls (run ls')) = GetStatus adset_id (Some ''PAUSED''))
          \<and> (\<exists>tr. calls (run ls') = calls (run ls) @ tr
                \<and> (\<forall>c \<in> set tr. touches_only adset_id ''PAUSED'' c)
                \<and> (\<exists>b. Post adset_id ''PAUSED'' b \<in> set tr)))"
proof (cases "current_status_of adset_info = ''PAUSED''")
  case True
  with assms(2) have "raised = None" "adset_info' = adset_info"
    "ls' = tell (Already_off_no_sales (adset_name_of adset_info))
       (ls\<lparr>total_processed := total_processed ls + 1\<rparr>)"
    unfolding adset_body_undefined [OF assms(1)] by auto
  with True show ?thesis
    by simp
next
  case False
  let ?ls2 = "tell (No_sales_will_turn_off (adset_name_of adset_info))
      (ls\<lparr>total_processed := total_processed ls + 1, target_status := Some ''PAUSED''\<rparr>)"
  have t: "target_status ?ls2 = Some ''PAUSED''" by simp
  from False assms(2) have r: "apply_decision P adset_id (adset_name_of adset_info)
      (current_status_of adset_info) adset_info ?ls2 = (raised, adset_info', ls')"
    unfolding adset_body_undefined [OF assms(1)] by simp
  have c: "calls (run ?ls2) = calls (run ls)" by simp
  from apply_decision_bound [OF t r] False show ?thesis
    unfolding c by blast
qed

text \<open>
  C8. For an item with qualifying outcomes the metric is the number 0 exactly when the
  spend is 0; and an ad set whose metric is the number 0 is skipped, whatever the mode
  and the threshold: the snapshot is unchanged, no call is made and no target is set.
\<close>

theorem zero_spend_holds_status:
  "(well_formed_item item \<and> outcome_count item > 0 \<longrightarrow>
      (item_cpp item = Inr (Num 0)) = (number_of (item_spend item) = 0))
   \<and> (CPP adset_info = Some (Num 0) \<longrightarrow>
        adset_body P on_off cpp_metric adset_id adset_info ls =
          (None, adset_info,
           tell (Skipping_no_spend (adset_name_of adset_info))
             (ls\<lparr>total_processed := total_processed ls + 1\<rparr>))
        \<and> calls (run (snd (snd (adset_body P on_off cpp_metric adset_id adset_info ls))))
            = calls (run ls)
        \<and> target_status (snd (snd (adset_body P on_off cpp_metric adset_id adset_info ls)))
            = target_status ls)"
proof (intro conjI impI)
  assume "well_formed_item item \<and> outcome_count item > 0"
  then show "(item_cpp item = Inr (Num 0)) = (number_of (item_spend item) = 0)"
    by (simp add: item_cpp_well_formed)
next
  assume z: "CPP adset_info = Some (Num 0)"
  then have eq: "CPP adset_info = Some (Num 0) \<or> CPP adset_info = None" by simp
  show "adset_body P on_off cpp_metric adset_id adset_info ls =
      (None, adset_info,
       tell (Skipping_no_spend (adset_name_of adset_info))
         (ls\<lparr>total_processed := total_processed ls + 1\<rparr>))"
    by (rule adset_body_zero [OF eq])
  show "calls (run (snd (snd (adset_body P on_off cpp_metric adset_id adset_info ls))))
      = calls (run ls)"
    unfolding adset_body_zero [OF eq] by simp
  show "target_status (snd (snd (adset_body P on_off cpp_metric adset_id adset_info ls)))
      = target_status ls"
    unfolding adset_body_zero [OF eq] by simp
qed

text \<open>
  C9. When the update of an ad set gives up without a verified success, the loop body
  reports the failure, raises nothing and leaves the snapshot and the update count as
  they were. In general the body changes a snapshot only by setting \<open>STATUS\<close> to a target
  the platform has just confirmed, and raises only for a mode that is neither \<open>ON\<close> nor
  \<open>OFF\<close>, before any call. After a body that did not raise, the loop runs on over the
  remaining ad sets, and in the modes \<open>ON\<close> and \<open>OFF\<close> it processes every ad set.
\<close>

theorem failed_apply_keeps_status_and_batch_continues:
  "(target_status ls = Some target \<and> current_status \<noteq> target
      \<and> fst (update_facebook_status_with_retry P adset_id adset_name target default_max_retries
               (run (tell (Updating adset_name current_status target)
                      (tell (Decision adset_name current_status target) ls)))) = False
     \<longrightarrow> (\<exists>ls'. apply_decision P adset_id adset_name current_status adset_info ls
                  = (None, adset_info, ls')
              \<and> total_updated ls' = total_updated ls
              \<and> messages (run ls') \<noteq> []
              \<and> last (messages (run ls')) = Update_failed adset_name target))
   \<and> (adset_body P on_off cpp_metric adset_id adset_info ls0 = (raised, adset_info', ls0') \<longrightarrow>
        (adset_info' = adset_info \<and> total_updated ls0' = total_updated ls0
         \<or> (\<exists>target. adset_info' = adset_info\<lparr>STATUS := Some target\<rparr>
              \<and> total_updated ls0' = total_updated ls0 + 1
              \<and> calls (run ls0') \<noteq> []
              \<and> last (calls (run ls0')) = GetStatus adset_id (Some target)))
        \<and> (raised \<noteq> None \<longrightarrow> raised = Some UnboundLocalError
              \<and> on_off \<noteq> ''ON'' \<and> on_off \<noteq> ''OFF'' \<and> calls (run ls0') = calls (run ls0))
        \<and> (raised = None \<longrightarrow>
              adsets_loop P on_off cpp_metric ((adset_id, adset_info) # rest) ls0 =
                (case adsets_loop P on_off cpp_metric rest ls0' of
                   (r, rest', ls'') \<Rightarrow> (r, (adset_id, adset_info') # rest', ls''))))
   \<and> (on_off = ''ON'' \<or> on_off = ''OFF'' \<longrightarrow>
        (case adsets_loop P on_off cpp_metric adsets ls0 of
           (r, out, ls') \<Rightarrow> r = None \<and> map fst out = map fst adsets
             \<and> total_processed ls' = total_processed ls0 + length adsets))"
proof (intro conjI)
  show "target_status ls = Some target \<and> current_status \<noteq> target
      \<and> fst (update_facebook_status_with_retry P adset_id adset_name target default_max_retries
               (run (tell (Updating adset_name current_status target)
                      (tell (Decision adset_name current_status target) ls)))) = False
     \<longrightarrow> (\<exists>ls'. apply_decision P adset_id adset_name current_status adset_info ls
                  = (None, adset_info, ls')
              \<and> total_updated ls' = total_updated ls
              \<and> messages (run ls') \<noteq> []
              \<and> last (messages (run ls')) = Update_failed adset_name target)"
  proof
    let ?s = "run (tell (Updating adset_name current_status target)
        (tell (Decision adset_name current_status target) ls))"
    assume h: "target_status ls = Some target \<and> current_status \<noteq> target
      \<and> fst (update_facebook_status_with_retry P adset_id adset_name target default_max_retries
           ?s) = False"
    obtain ok s' where u: "update_facebook_status_with_retry P adset_id adset_name target
        default_max_retries ?s = (ok, s')"
      by (cases "update_facebook_status_with_retry P adset_id adset_name target
        default_max_retries ?s")
    with h have "\<not> ok" by simp
    with h u have "apply_decision P adset_id adset_name current_status adset_info ls =
        (None, adset_info,
         tell (Update_failed adset_name target)
           ((tell (Decision adset_name current_status target) ls)\<lparr>run := s'\<rparr>))"
      by (simp add: apply_decision_def Let_def)
    then show "\<exists>ls'. apply_decision P adset_id adset_name current_status adset_info ls
                  = (None, adset_info, ls')
              \<and> total_updated ls' = total_updated ls
              \<and> messages (run ls') \<noteq> []
              \<and> last (messages (run ls')) = Update_failed adset_name target"
      by (simp add: tell_def)
  qed
next
  show "adset_body P on_off cpp_metric adset_id adset_info ls0 = (raised, adset_info', ls0') \<longrightarrow>
        (adset_info' = adset_info \<and> total_updated ls0' = total_updated ls0
         \<or> (\<exists>target. adset_info' = adset_info\<lparr>STATUS := Some target\<rparr>
              \<and> total_updated ls0' = total_updated ls0 + 1
              \<and> calls (run ls0') \<noteq> []
              \<and> last (calls (run ls0')) = GetStatus adset_id (Some target)))
        \<and> (raised \<noteq> None \<longrightarrow> raised = Some UnboundLocalError
              \<and> on_off \<noteq> ''ON'' \<and> on_off \<noteq> ''OFF'' \<and> calls (run ls0') = calls (run ls0))
        \<and> (raised = None \<longrightarrow>
              adsets_loop P on_off cpp_metric ((adset_id, adset_info) # rest) ls0 =
                (case adsets_loop P on_off cpp_metric rest ls0' of
                   (r, rest', ls'') \<Rightarrow> (r, (adset_id, adset_info') # rest', ls'')))"
  proof
    assume b: "adset_body P on_off cpp_metric adset_id adset_info ls0 = (raised, adset_info', ls0')"
    from adset_body_frame [OF b] have
      "(adset_info' = adset_info \<and> total_updated ls0' = total_updated ls0
         \<or> (\<exists>target. adset_info' = adset_info\<lparr>STATUS := Some target\<rparr>
              \<and> total_updated ls0' = total_updated ls0 + 1
              \<and> calls (run ls0') \<noteq> []
              \<and> last (calls (run ls0')) = GetStatus adset_id (Some target)))
        \<and> (raised \<noteq> None \<longrightarrow> raised = Some UnboundLocalError
              \<and> on_off \<noteq> ''ON'' \<and> on_off \<noteq> ''OFF'' \<and> calls (run ls0') = calls (run ls0))"
      by (simp add: body_frame_def)
    moreover have "raised = None \<longrightarrow>
          adsets_loop P on_off cpp_metric ((adset_id, adset_info) # rest) ls0 =
            (case adsets_loop P on_off cpp_metric rest ls0' of
               (r, rest', ls'') \<Rightarrow> (r, (adset_id, adset_info') # rest', ls''))"
      using b by simp
    ultimately show "(adset_info' = adset_info \<and> total_updated ls0' = total_updated ls0
         \<or> (\<exists>target. adset_info' = adset_info\<lparr>STATUS := Some target\<rparr>
              \<and> total_updated ls0' = total_updated ls0 + 1
              \<and> calls (run ls0') \<noteq> []
              \<and> last (calls (run ls0')) = GetStatus adset_id (Some target)))
        \<and> (raised \<noteq> None \<longrightarrow> raised = Some UnboundLocalError
              \<and> on_off \<noteq> ''ON'' \<and> on_off \<noteq> ''OFF'' \<and> calls (run ls0') = calls (run ls0))
        \<and> (raised = None \<longrightarrow>
              adsets_loop P on_off cpp_metric ((adset_id, adset_info) # rest) ls0 =
                (case adsets_loop P on_off cpp_metric rest ls0' of
                   (r, rest', ls'') \<Rightarrow> (r, (adset_id, adset_info') # rest', ls'')))"
      by blast
  qed
next
  show "on_off = ''ON'' \<or> on_off = ''OFF'' \<longrightarrow>
        (case adsets_loop P on_off cpp_metric adsets ls0 of
           (r, out, ls') \<Rightarrow> r = None \<and> map fst out = map fst adsets
             \<and> total_processed ls' = total_processed ls0 + length adsets)"
    by (rule impI) (rule adsets_loop_never_aborts)
qed

lemmas run_eval = adset_body_def apply_decision_def update_facebook_status_with_retry_def
  default_max_retries_def upt_rec ignoring_platform_def obedient_platform_def active_start_def
  fresh_loop_def update_facebook_status_def fetch_entity_status_def say_def sleep_def tell_def
  Let_def no_sales_adset_def no_spend_adset_def costly_adset_def

theorem undefined_metric_targets_paused_witness:
  "(CPP no_sales_adset = Some Inf \<or> CPP no_sales_adset = Some PyNone)
   \<and> current_status_of no_sales_adset \<noteq> ''PAUSED''
   \<and> (\<exists>ls'. adset_body obedient_platform ''ON'' 5 ''a1'' no_sales_adset fresh_loop =
          (None, no_sales_adset\<lparr>STATUS := Some ''PAUSED''\<rparr>, ls')
        \<and> target_status ls' = Some ''PAUSED'')"
proof -
  define res where "res = adset_body obedient_platform ''ON'' 5 ''a1'' no_sales_adset fresh_loop"
  have "fst res = None" and "fst (snd res) = no_sales_adset\<lparr>STATUS := Some ''PAUSED''\<rparr>"
    by (simp_all add: res_def run_eval)
  then have h: "adset_body obedient_platform ''ON'' 5 ''a1'' no_sales_adset fresh_loop =
      (None, no_sales_adset\<lparr>STATUS := Some ''PAUSED''\<rparr>, snd (snd res))"
    unfolding res_def by (metis prod.collapse)
  have c: "CPP no_sales_adset = Some Inf \<or> CPP no_sales_adset = Some PyNone"
    by (simp add: no_sales_adset_def)
  have cs: "current_status_of no_sales_adset \<noteq> ''PAUSED''"
    by (simp add: no_sales_adset_def current_status_of_def)
  have t: "target_status (snd (snd res)) = Some ''PAUSED''"
    by (rule undefined_metric_targets_paused
        [OF c h, THEN conjunct2, THEN conjunct2, THEN mp, OF cs, THEN conjunct1])
  show ?thesis
    by (intro conjI exI [of _ "snd (snd res)"] c cs h t)
qed

theorem zero_spend_holds_status_witness:
  "well_formed_item zero_spend_item \<and> outcome_count zero_spend_item > 0
   \<and> number_of (item_spend zero_spend_item) = 0
   \<and> item_cpp zero_spend_item = Inr (Num 0)
   \<and> CPP no_spend_adset = Some (Num 0)
   \<and> adset_body ignoring_platform ''ON'' 5 ''a2'' no_spend_adset fresh_loop =
       (None, no_spend_adset,
        tell (Skipping_no_spend (adset_name_of no_spend_adset))
          (fresh_loop\<lparr>total_processed := total_processed fresh_loop + 1\<rparr>))"
proof -
  have wf: "well_formed_item zero_spend_item"
    by (simp add: well_formed_item_def zero_spend_item_def example_item_def)
  have rv: "recognised_values zero_spend_item = [3, 5]"
    by (simp add: recognised_values_def zero_spend_item_def example_item_def
        checkout_actions_def number_of_def)
  have oc: "outcome_count zero_spend_item > 0"
    by (simp add: outcome_count_def rv)
  have sp: "number_of (item_spend zero_spend_item) = 0"
    by (simp add: zero_spend_item_def number_of_def)
  have cp: "CPP no_spend_adset = Some (Num 0)"
    by (simp add: no_spend_adset_def)
  note t = zero_spend_holds_status [of zero_spend_item no_spend_adset ignoring_platform
      "''ON''" 5 "''a2''" fresh_loop]
  have v: "item_cpp zero_spend_item = Inr (Num 0)"
    by (rule t [THEN conjunct1, THEN mp, OF conjI [OF wf oc], THEN iffD2, OF sp])
  have b: "adset_body ignoring_platform ''ON'' 5 ''a2'' no_spend_adset fresh_loop =
       (None, no_spend_adset,
        tell (Skipping_no_spend (adset_name_of no_spend_adset))
          (fresh_loop\<lparr>total_processed := total_processed fresh_loop + 1\<rparr>))"
    by (rule t [THEN conjunct2, THEN mp, OF cp, THEN conjunct1])
  show ?thesis
    by (intro conjI wf oc sp v cp b)
qed


theorem failed_apply_keeps_status_and_batch_continues_witness:
  "target_status (fresh_loop\<lparr>target_status := Some ''PAUSED''\<rparr>) = Some ''PAUSED''
   \<and> ''ACTIVE'' \<noteq> ''PAUSED''
   \<and> fst (update_facebook_status_with_retry ignoring_platform ''a3'' ''three'' ''PAUSED''
            default_max_retries
            (run (tell (Updating ''three'' ''ACTIVE'' ''PAUSED'')
                   (tell (Decision ''three'' ''ACTIVE'' ''PAUSED'')
                      (fresh_loop\<lparr>target_status := Some ''PAUSED''\<rparr>))))) = False
   \<and> (\<exists>ls'. apply_decision ignoring_platform ''a3'' ''three'' ''ACTIVE'' costly_adset
               (fresh_loop\<lparr>target_status := Some ''PAUSED''\<rparr>) = (None, costly_adset, ls')
          \<and> last (messages (run ls')) = Update_failed ''three'' ''PAUSED'')
   \<and> (\<exists>ls'. adset_body ignoring_platform ''OFF'' 5 ''a3'' costly_adset fresh_loop =
               (None, costly_adset, ls')
          \<and> adsets_loop ignoring_platform ''OFF'' 5
               [(''a3'', costly_adset), (''a2'', no_spend_adset)] fresh_loop =
             (case adsets_loop ignoring_platform ''OFF'' 5 [(''a2'', no_spend_adset)] ls' of
                (r, rest', ls'') \<Rightarrow> (r, (''a3'', costly_adset) # rest', ls'')))
   \<and> (case adsets_loop ignoring_platform ''OFF'' 5
               [(''a3'', costly_adset), (''a2'', no_spend_adset)] fresh_loop of
         (r, out, ls') \<Rightarrow> r = None
           \<and> map fst out = map fst [(''a3'', costly_adset), (''a2'', no_spend_adset)]
           \<and> total_processed ls' = total_processed fresh_loop
               + length [(''a3'', costly_adset), (''a2'', no_spend_adset)])"
proof -
  let ?ls = "fresh_loop\<lparr>target_status := Some ''PAUSED''\<rparr>"
  define res where "res = adset_body ignoring_platform ''OFF'' 5 ''a3'' costly_adset fresh_loop"
  have h1: "target_status ?ls = Some ''PAUSED''" by simp
  have h2: "''ACTIVE'' \<noteq> ''PAUSED''" by simp
  have h3: "fst (update_facebook_status_with_retry ignoring_platform ''a3'' ''three'' ''PAUSED''
            default_max_retries
            (run (tell (Updating ''three'' ''ACTIVE'' ''PAUSED'')
                   (tell (Decision ''three'' ''ACTIVE'' ''PAUSED'') ?ls)))) = False"
    by (simp add: run_eval)
  have "fst res = None" and "fst (snd res) = costly_adset"
    by (simp_all add: res_def run_eval)
  then have h4: "adset_body ignoring_platform ''OFF'' 5 ''a3'' costly_adset fresh_loop =
      (None, costly_adset, snd (snd res))"
    unfolding res_def by (metis prod.collapse)
  have h5: "''OFF'' = ''ON'' \<or> ''OFF'' = ''OFF''" by simp
  note t = failed_apply_keeps_status_and_batch_continues
    [of ?ls "''PAUSED''" "''ACTIVE''" ignoring_platform "''a3''" "''three''" costly_adset
        "''OFF''" 5 fresh_loop None costly_adset "snd (snd res)" "[(''a2'', no_spend_adset)]"
        "[(''a3'', costly_adset), (''a2'', no_spend_adset)]"]
  from t [THEN conjunct1, THEN mp, OF conjI [OF h1 conjI [OF h2 h3]]]
  obtain ls' where a: "apply_decision ignoring_platform ''a3'' ''three'' ''ACTIVE'' costly_adset
      ?ls = (None, costly_adset, ls')"
    and m: "last (messages (run ls')) = Update_failed ''three'' ''PAUSED''"
    by blast
  have c1: "\<exists>ls'. apply_decision ignoring_platform ''a3'' ''three'' ''ACTIVE'' costly_adset
               ?ls = (None, costly_adset, ls')
          \<and> last (messages (run ls')) = Update_failed ''three'' ''PAUSED''"
    by (rule exI [of _ ls'], rule conjI [OF a m])
  have l: "adsets_loop ignoring_platform ''OFF'' 5
               [(''a3'', costly_adset), (''a2'', no_spend_adset)] fresh_loop =
             (case adsets_loop ignoring_platform ''OFF'' 5 [(''a2'', no_spend_adset)]
                     (snd (snd res)) of
                (r, rest', ls'') \<Rightarrow> (r, (''a3'', costly_adset) # rest', ls''))"
    by (rule t [THEN conjunct2, THEN conjunct1, THEN mp, OF h4, THEN conjunct2, THEN conjunct2,
          THEN mp, OF refl])
  have c2: "\<exists>ls'. adset_body ignoring_platform ''OFF'' 5 ''a3'' costly_adset fresh_loop =
               (None, costly_adset, ls')
          \<and> adsets_loop ignoring_platform ''OFF'' 5
               [(''a3'', costly_adset), (''a2'', no_spend_adset)] fresh_loop =
             (case adsets_loop ignoring_platform ''OFF'' 5 [(''a2'', no_spend_adset)] ls' of
                (r, rest', ls'') \<Rightarrow> (r, (''a3'', costly_adset) # rest', ls''))"
    by (rule exI [of _ "snd (snd res)"], rule conjI [OF h4 l])
  note c3 = t [THEN conjunct2, THEN conjunct2, THEN mp, OF h5]
  show ?thesis
    by (intro conjI h1 h2 h3 c1 c2 c3)
qed

section \<open>The campaign decision pass\<close>

lemmas sched_eval = process_scheduled_campaigns_def on_schedule_def costly_entry_def
  costly_campaign_def py_int_def campaign_body_def campaign_new_status_def cpp_less_def
  cpp_greater_eq_def obedient_platform_def active_start_def say_def Let_def
  update_facebook_status_def

text \<open>
  The claim C2 asks for the target \<open>PAUSED\<close> in mode \<open>ON\<close> when the metric has reached
  the threshold. The source gives no target there: an active campaign that costs 7
  against a threshold of 5 remains active, and no request is made, even on a platform
  that would obey.
\<close>

theorem campaign_on_mode_pause_counterexample:
  "(7::rat) \<ge> of_int 5
   \<and> campaign_new_status ''ON'' (Num 7) 5 \<noteq> Inr (Some ''PAUSED'')
   \<and> process_scheduled_campaigns obedient_platform on_schedule (Some costly_entry) active_start =
       (Processed_scheduled, Some costly_entry,
        active_start\<lparr>messages := [Campaign_remains ''PageA-ItemB-P100'' ''c1'' ''ACTIVE'']\<rparr>)"
  by (simp add: sched_eval)

text \<open>
  C2, as the source has it. For a campaign whose metric is a number that has reached
  the threshold: in mode \<open>ON\<close> no target is set, the campaign keeps its status and no
  request is made (the mode only activates campaigns below the threshold); in mode
  \<open>OFF\<close> the target is \<open>PAUSED\<close>.
\<close>

theorem campaign_pauses_only_in_off_mode:
  assumes "CAMPAIGN_CPP campaign_info = Some (Num c)" and "c \<ge> of_int cpp_metric"
  shows "campaign_new_status ''ON'' (Num c) cpp_metric = Inr None
     \<and> campaign_body P ''ON'' cpp_metric campaign_id campaign_info (update_success, s) =
         (None, campaign_info, update_success,
          say (Campaign_remains
                 (case CAMPAIGN_NAME campaign_info of None \<Rightarrow> [] | Some v \<Rightarrow> v) campaign_id
                 (case CAMPAIGN_STATUS campaign_info of None \<Rightarrow> [] | Some v \<Rightarrow> v)) s)
     \<and> campaign_new_status ''OFF'' (Num c) cpp_metric = Inr (Some ''PAUSED'')"
  using assms
  by (simp add: campaign_new_status_def cpp_less_def cpp_greater_eq_def campaign_body_def Let_def)

theorem campaign_pauses_only_in_off_mode_witness:
  "CAMPAIGN_CPP costly_campaign = Some (Num 7)
   \<and> (7::rat) \<ge> of_int 5
   \<and> campaign_new_status ''ON'' (Num 7) 5 = Inr None
   \<and> campaign_body obedient_platform ''ON'' 5 ''c1'' costly_campaign (False, active_start) =
       (None, costly_campaign, False,
        say (Campaign_remains
               (case CAMPAIGN_NAME costly_campaign of None \<Rightarrow> [] | Some v \<Rightarrow> v) ''c1''
               (case CAMPAIGN_STATUS costly_campaign of None \<Rightarrow> [] | Some v \<Rightarrow> v))
          active_start)
   \<and> campaign_new_status ''OFF'' (Num 7) 5 = Inr (Some ''PAUSED'')"
proof -
  have h1: "CAMPAIGN_CPP costly_campaign = Some (Num 7)"
    by (simp add: costly_campaign_def)
  have h2: "(7::rat) \<ge> of_int 5"
    by simp
  note t = campaign_pauses_only_in_off_mode
    [OF h1 h2, of obedient_platform "''c1''" False active_start]
  show ?thesis
    by (intro conjI h1 h2 t [THEN conjunct1] t [THEN conjunct2, THEN conjunct1]
        t [THEN conjunct2, THEN conjunct2])
qed

end
